theory Spec2Isabelle
  imports Complex_Main "HOL-Library.Log_Nat"
begin

text \<open>
  A shallow embedding of \<^verbatim>\<open>fs/accounting/accounting.go\<close>, the accounting reader of
  rclone: the struct \<^verbatim>\<open>Account\<close> with its methods, the adapter \<^verbatim>\<open>accountStream\<close> and
  the function \<^verbatim>\<open>UnWrap\<close>, over an explicit heap of accounts and streams; and the
  properties of the specification that hold, or do not hold, of them.
\<close>

section \<open>Go values used by \<^verbatim>\<open>fs/accounting/accounting.go\<close>\<close>

subsection \<open>Machine integers\<close>

text \<open>
  \<^verbatim>\<open>int64\<close>, \<^verbatim>\<open>time.Duration\<close> and (on a 64-bit platform) \<^verbatim>\<open>int\<close> are
  modelled as \<open>int\<close> with the two's complement wrap-around written out: every
  arithmetic result of the source passes through \<open>wrap64\<close>.
\<close>

definition min_int64 :: int where
  "min_int64 = - (2 ^ 63)"

definition max_int64 :: int where
  "max_int64 = 2 ^ 63 - 1"

definition is_int64 :: "int \<Rightarrow> bool" where
  "is_int64 x = (min_int64 \<le> x \<and> x \<le> max_int64)"

definition wrap64 :: "int \<Rightarrow> int" where
  "wrap64 x = (x + 2 ^ 63) mod 2 ^ 64 - 2 ^ 63"

text \<open>Go's integer division truncates towards zero.\<close>

definition go_div :: "int \<Rightarrow> int \<Rightarrow> int" where
  "go_div a b = wrap64 (sgn a * sgn b * (\<bar>a\<bar> div \<bar>b\<bar>))"

subsection \<open>Strings and errors\<close>

text \<open>
  A Go string is modelled as the list of its runes (Unicode code points), so that
  \<^verbatim>\<open>[]rune(s)\<close> and \<^verbatim>\<open>string(rs)\<close> are the identity, as they are on every string that
  is valid UTF-8. \<open>runes\<close> turns an ASCII literal into such a list.
\<close>

type_synonym rune = nat
type_synonym gostring = "rune list"

definition runes :: "string \<Rightarrow> gostring" where
  "runes s = map of_char s"

text \<open>A non-nil Go \<^verbatim>\<open>error\<close>; the nil error is \<open>None\<close>.\<close>

datatype error = EOF | Error string

subsection \<open>Time\<close>

text \<open>
  A \<^verbatim>\<open>time.Time\<close> is the number of nanoseconds since the zero instant, a
  \<^verbatim>\<open>time.Duration\<close> a number of nanoseconds in an \<^verbatim>\<open>int64\<close>.
\<close>

type_synonym time = int
type_synonym duration = int

definition IsZero :: "time \<Rightarrow> bool" where
  "IsZero t = (t = 0)"

definition Second :: duration where
  "Second = 1000000000"

text \<open>\<^verbatim>\<open>t.Sub(u)\<close> saturates at the largest and smallest duration.\<close>

definition Sub :: "time \<Rightarrow> time \<Rightarrow> duration" where
  "Sub t u = (if t - u > max_int64 then max_int64
              else if t - u < min_int64 then min_int64 else t - u)"

subsection \<open>Binary64 floating point\<close>

text \<open>
  A \<^verbatim>\<open>float64\<close> is a finite value (a rational), an infinity or a NaN. The results of
  the operations are rounded to the nearest binary64 value, ties to even, with gradual
  underflow and overflow to an infinity. The two zeros are identified: the only divisors
  that can be zero in this file are non-negative (an elapsed time of zero), so a division
  by zero takes the sign of the dividend.
\<close>

datatype float64 = Finite rat | PInf | NInf | NaN

definition round_half_even :: "rat \<Rightarrow> int" where
  "round_half_even q =
     (let f = \<lfloor>q\<rfloor>; d = q - of_int f
      in if d < 1 / 2 then f
         else if 1 / 2 < d then f + 1
         else if even f then f else f + 1)"

text \<open>The binary exponent \<open>e\<close> of a positive rational: \<open>2 ^ e \<le> x < 2 ^ (e + 1)\<close>.\<close>

definition f64_exponent :: "rat \<Rightarrow> int" where
  "f64_exponent x =
     (if 1 \<le> x then bitlen \<lfloor>x\<rfloor> - 1 else - bitlen (\<lceil>1 / x\<rceil> - 1))"

definition pow2 :: "int \<Rightarrow> rat" where
  "pow2 k = (if 0 \<le> k then 2 ^ nat k else 1 / 2 ^ nat (- k))"

definition f64_round :: "rat \<Rightarrow> float64" where
  "f64_round x =
     (if x = 0 then Finite 0
      else let u = pow2 (max (f64_exponent \<bar>x\<bar>) (- 1022) - 52);
               r = of_int (round_half_even (x / u)) * u
           in if 2 ^ 1024 \<le> r then PInf
              else if r \<le> - (2 ^ 1024) then NInf
              else Finite r)"

definition f64_of_int :: "int \<Rightarrow> float64" where
  "f64_of_int n = f64_round (of_int n)"

fun f64_mul :: "float64 \<Rightarrow> float64 \<Rightarrow> float64" where
  "f64_mul NaN _ = NaN"
| "f64_mul _ NaN = NaN"
| "f64_mul (Finite x) (Finite y) = f64_round (x * y)"
| "f64_mul (Finite x) PInf = (if x = 0 then NaN else if 0 < x then PInf else NInf)"
| "f64_mul (Finite x) NInf = (if x = 0 then NaN else if 0 < x then NInf else PInf)"
| "f64_mul PInf (Finite y) = (if y = 0 then NaN else if 0 < y then PInf else NInf)"
| "f64_mul NInf (Finite y) = (if y = 0 then NaN else if 0 < y then NInf else PInf)"
| "f64_mul PInf PInf = PInf"
| "f64_mul PInf NInf = NInf"
| "f64_mul NInf PInf = NInf"
| "f64_mul NInf NInf = PInf"

fun f64_div :: "float64 \<Rightarrow> float64 \<Rightarrow> float64" where
  "f64_div NaN _ = NaN"
| "f64_div _ NaN = NaN"
| "f64_div (Finite x) (Finite y) =
     (if y = 0 then (if x = 0 then NaN else if 0 < x then PInf else NInf)
      else f64_round (x / y))"
| "f64_div (Finite x) PInf = Finite 0"
| "f64_div (Finite x) NInf = Finite 0"
| "f64_div PInf (Finite y) = (if 0 \<le> y then PInf else NInf)"
| "f64_div NInf (Finite y) = (if 0 \<le> y then NInf else PInf)"
| "f64_div PInf PInf = NaN"
| "f64_div PInf NInf = NaN"
| "f64_div NInf PInf = NaN"
| "f64_div NInf NInf = NaN"

text \<open>\<^verbatim>\<open>x <= 0\<close> and \<^verbatim>\<open>x > 0\<close>; every comparison with a NaN is false.\<close>

fun f64_le_zero :: "float64 \<Rightarrow> bool" where
  "f64_le_zero (Finite x) = (x \<le> 0)"
| "f64_le_zero NInf = True"
| "f64_le_zero PInf = False"
| "f64_le_zero NaN = False"

text \<open>
  The conversion of a \<^verbatim>\<open>float64\<close> to \<^verbatim>\<open>int\<close> or \<^verbatim>\<open>int64\<close> discards the fraction.
  When the value is not representable the result is implementation-dependent in Go; the
  platform's choice is the parameter \<open>ovf\<close>.
\<close>

definition trunc_rat :: "rat \<Rightarrow> int" where
  "trunc_rat x = (if 0 \<le> x then \<lfloor>x\<rfloor> else \<lceil>x\<rceil>)"

fun f64_to_int64 :: "(float64 \<Rightarrow> int) \<Rightarrow> float64 \<Rightarrow> int" where
  "f64_to_int64 ovf (Finite x) =
     (if is_int64 (trunc_rat x) then trunc_rat x else ovf (Finite x))"
| "f64_to_int64 ovf v = ovf v"

subsection \<open>Formatting\<close>

text \<open>The verbs \<^verbatim>\<open>%45s\<close> and \<^verbatim>\<open>%2d\<close> pad with spaces on the left up to the width.\<close>

definition pad_left :: "nat \<Rightarrow> gostring \<Rightarrow> gostring" where
  "pad_left width s = replicate (width - length s) (of_char CHR '' '') @ s"

fun digits :: "nat \<Rightarrow> gostring" where
  "digits n = (if n < 10 then [of_char CHR ''0'' + n]
               else digits (n div 10) @ [of_char CHR ''0'' + n mod 10])"

definition itoa :: "int \<Rightarrow> gostring" where
  "itoa i = (if i < 0 then of_char CHR ''-'' # digits (nat (- i)) else digits (nat i))"

section \<open>The heap\<close>

text \<open>
  The closable streams an \<^verbatim>\<open>Account\<close> is built on come from outside the package: the
  body of an object, or an \<^verbatim>\<open>*asyncreader.AsyncReader\<close>. Each lives at an address of the
  heap; the constructor is its dynamic type. Such a stream answers its calls to
  \<^verbatim>\<open>Read\<close> with the pairs \<open>reads\<close> in order and with \<^verbatim>\<open>(0, io.EOF)\<close> after them,
  and every call to \<^verbatim>\<open>Close\<close> with \<open>close_result\<close>.
\<close>

datatype read_closer = Source nat | AsyncReader nat

fun address :: "read_closer \<Rightarrow> nat" where
  "address (Source i) = i"
| "address (AsyncReader i) = i"

record stream =
  reads :: "(int \<times> error option) list"
  close_result :: "error option"
  close_calls :: nat
  abandoned :: bool

text \<open>
  An \<^verbatim>\<open>io.Reader\<close>: an outside stream, an \<^verbatim>\<open>*accountStream\<close> with its fields
  \<^verbatim>\<open>acc\<close> and \<^verbatim>\<open>in\<close>, or an \<^verbatim>\<open>*Account\<close>. An \<^verbatim>\<open>*Account\<close> is the address of the
  account in the heap.
\<close>

datatype reader = ReadCloser read_closer | AccountStream nat reader | AccountReader nat

datatype chan = Open | Closed

text \<open>
  The struct \<^verbatim>\<open>Account\<close>. The field \<open>avg\<close> is the value \<^verbatim>\<open>acc.avg.Value()\<close> of the
  moving average; the mutexes are not fields: the accounts whose \<^verbatim>\<open>mu\<close> the running
  goroutine holds are an argument of the methods that lock it inside a call chain.
\<close>

record account =
  acc_in :: reader
  origIn :: read_closer
  close :: read_closer
  acc_size :: int
  name :: gostring
  bytes :: int
  start :: time
  lpTime :: time
  lpBytes :: int
  avg :: float64
  closed :: bool
  exit :: chan
  withBuf :: bool

text \<open>
  The heap, with the package-level state the file writes to: the registry
  \<^verbatim>\<open>Stats.inProgress\<close>, the counter behind \<^verbatim>\<open>Stats.Bytes\<close>, the arguments
  \<^verbatim>\<open>limitBandwidth\<close> was called with and the lines written by \<^verbatim>\<open>fs.Errorf\<close>.
\<close>

record world =
  accounts :: "account list"
  streams :: "stream list"
  inProgress :: "gostring \<rightharpoonup> nat"
  stats_bytes :: int
  limited :: "int list"
  logged :: "(gostring \<times> error) list"

text \<open>
  What the file reads from other packages: the fields of \<^verbatim>\<open>fs.Config\<close>, the constant
  \<^verbatim>\<open>asyncreader.BufferSize\<close> (a constant divisor, so not zero), the constructor
  \<^verbatim>\<open>asyncreader.New\<close> (the error it returns, or the new reader), the \<^verbatim>\<open>String\<close> methods
  of \<^verbatim>\<open>fs.SizeSuffix\<close> and \<^verbatim>\<open>time.Duration\<close>, and the platform's conversion of an
  unrepresentable \<^verbatim>\<open>float64\<close>.
\<close>

record env =
  BufferSize :: int
  StatsFileNameLength :: int
  DataRateUnit :: gostring
  asyncreader_BufferSize :: int
  asyncreader_New :: "read_closer \<Rightarrow> int \<Rightarrow> error + stream"
  SizeSuffix_String :: "int \<Rightarrow> gostring"
  Duration_String :: "duration \<Rightarrow> gostring"
  float_to_int :: "float64 \<Rightarrow> int"

text \<open>
  How a call can fail to return a result: it blocks for ever on a mutex its own goroutine
  holds, it panics, or it was handed an address at which the heap has no object (no Go
  program does that).
\<close>

datatype fault = Deadlock | Panic string | Invalid

definition update_account :: "nat \<Rightarrow> (account \<Rightarrow> account) \<Rightarrow> world \<Rightarrow> world" where
  "update_account a f w = w\<lparr>accounts := (accounts w)[a := f (accounts w ! a)]\<rparr>"

definition update_stream :: "nat \<Rightarrow> (stream \<Rightarrow> stream) \<Rightarrow> world \<Rightarrow> world" where
  "update_stream i f w = w\<lparr>streams := (streams w)[i := f (streams w ! i)]\<rparr>"

definition stream_Read :: "read_closer \<Rightarrow> world \<Rightarrow> fault + ((int \<times> error option) \<times> world)" where
  "stream_Read rc w =
     (if address rc < length (streams w) then
        (case reads (streams w ! address rc) of
           [] \<Rightarrow> Inr ((0, Some EOF), w)
         | r # rs \<Rightarrow> Inr (r, update_stream (address rc) (\<lambda>s. s\<lparr>reads := rs\<rparr>) w))
      else Inl Invalid)"

definition stream_Close :: "read_closer \<Rightarrow> world \<Rightarrow> fault + (error option \<times> world)" where
  "stream_Close rc w =
     (if address rc < length (streams w) then
        Inr (close_result (streams w ! address rc),
             update_stream (address rc) (\<lambda>s. s\<lparr>close_calls := Suc (close_calls s)\<rparr>) w)
      else Inl Invalid)"

text \<open>
  Modelled from the spec: the buffering collaborator \<^verbatim>\<open>asyncreader\<close> is not in this file.
  Its \<^verbatim>\<open>Abandon()\<close> stops further look-ahead without losing already-buffered data; the
  buffered stream is itself closable and readable, as the outside streams above.
\<close>

definition Abandon :: "nat \<Rightarrow> world \<Rightarrow> fault + world" where
  "Abandon i w =
     (if i < length (streams w) then Inr (update_stream i (\<lambda>s. s\<lparr>abandoned := True\<rparr>) w)
      else Inl Invalid)"

text \<open>
  Modelled from the spec: the in-progress registry behind \<^verbatim>\<open>Stats.inProgress\<close> is not in
  this file. It has \<^verbatim>\<open>set(name, core)\<close>, called on construction, and \<^verbatim>\<open>clear(name)\<close>,
  called on close; neither returns a value.
\<close>

definition inProgress_set :: "gostring \<Rightarrow> nat \<Rightarrow> world \<Rightarrow> world" where
  "inProgress_set nm a w = w\<lparr>inProgress := (inProgress w)(nm \<mapsto> a)\<rparr>"

definition inProgress_clear :: "gostring \<Rightarrow> world \<Rightarrow> world" where
  "inProgress_clear nm w = w\<lparr>inProgress := (inProgress w)(nm := None)\<rparr>"

text \<open>
  Modelled from the spec: the global byte counter \<^verbatim>\<open>Stats.Bytes\<close> is not in this file. It is
  a single function receiving the number of bytes read on every \<^verbatim>\<open>Read\<close>, used for
  aggregate statistics.
\<close>

definition Stats_Bytes :: "int \<Rightarrow> world \<Rightarrow> world" where
  "Stats_Bytes n w = w\<lparr>stats_bytes := wrap64 (stats_bytes w + n)\<rparr>"

text \<open>
  Modelled from the spec: the bandwidth limiter \<^verbatim>\<open>limitBandwidth\<close> is not in this file. It is
  a single function receiving the number of bytes just read; it may block, and it returns.
  The heap keeps the numbers it received.
\<close>

definition limitBandwidth :: "int \<Rightarrow> world \<Rightarrow> world" where
  "limitBandwidth n w = w\<lparr>limited := limited w @ [n]\<rparr>"

text \<open>
  Modelled from the spec: \<^verbatim>\<open>fs.Errorf\<close> is not in this file. A buffering failure is logged;
  the heap keeps the name and the error of each line.
\<close>

definition Errorf :: "gostring \<Rightarrow> error \<Rightarrow> world \<Rightarrow> world" where
  "Errorf nm err w = w\<lparr>logged := logged w @ [(nm, err)]\<rparr>"

section \<open>The methods of \<^verbatim>\<open>Account\<close>\<close>

text \<open>
  \<^verbatim>\<open>NewAccountSizeName\<close> allocates the account, starts the sampler (whose stop channel
  \<open>exit\<close> is open) and registers the account. It returns the new address.
\<close>

definition NewAccountSizeName :: "time \<Rightarrow> read_closer \<Rightarrow> int \<Rightarrow> gostring \<Rightarrow> world \<Rightarrow> nat \<times> world" where
  "NewAccountSizeName now inp sz nm w =
     (let acc = \<lparr>acc_in = ReadCloser inp, origIn = inp, close = inp, acc_size = sz, name = nm,
                 bytes = 0, start = 0, lpTime = now, lpBytes = 0, avg = Finite 0,
                 closed = False, exit = Open, withBuf = False\<rparr>;
          a = length (accounts w)
      in (a, inProgress_set nm a (w\<lparr>accounts := accounts w @ [acc]\<rparr>)))"

definition WithBuffer :: "env \<Rightarrow> nat \<Rightarrow> world \<Rightarrow> fault + world" where
  "WithBuffer e a w =
     (if a < length (accounts w) then
        (let acc = (accounts w ! a)\<lparr>withBuf := True\<rparr>;
             buffers = (if BufferSize e \<le> acc_size acc \<or> acc_size acc = - 1
                        then go_div (BufferSize e) (asyncreader_BufferSize e)
                        else go_div (acc_size acc) (asyncreader_BufferSize e))
         in if 0 < buffers then
              (case asyncreader_New e (origIn acc) buffers of
                 Inl err \<Rightarrow>
                   Inr (Errorf (name acc) err (w\<lparr>accounts := (accounts w)[a := acc]\<rparr>))
               | Inr rc \<Rightarrow>
                   Inr (w\<lparr>accounts := (accounts w)[a := acc
                             \<lparr>acc_in := ReadCloser (AsyncReader (length (streams w))),
                              close := AsyncReader (length (streams w))\<rparr>],
                          streams := streams w @ [rc]\<rparr>))
            else Inr (w\<lparr>accounts := (accounts w)[a := acc]\<rparr>))
      else Inl Invalid)"

definition GetReader :: "nat \<Rightarrow> world \<Rightarrow> fault + read_closer" where
  "GetReader a w = (if a < length (accounts w) then Inr (origIn (accounts w ! a)) else Inl Invalid)"

definition StopBuffering :: "nat \<Rightarrow> world \<Rightarrow> fault + world" where
  "StopBuffering a w =
     (if a < length (accounts w) then
        (case acc_in (accounts w ! a) of
           ReadCloser (AsyncReader i) \<Rightarrow> Abandon i w
         | _ \<Rightarrow> Inr w)
      else Inl Invalid)"

definition UpdateReader :: "env \<Rightarrow> nat \<Rightarrow> read_closer \<Rightarrow> world \<Rightarrow> fault + world" where
  "UpdateReader e a inp w =
     (case StopBuffering a w of
        Inl f \<Rightarrow> Inl f
      | Inr w1 \<Rightarrow>
          WithBuffer e a
            (update_account a (\<lambda>acc. acc\<lparr>acc_in := ReadCloser inp, close := inp, origIn := inp\<rparr>) w1))"

text \<open>
  The two halves of \<^verbatim>\<open>read\<close> around the call \<^verbatim>\<open>in.Read(p)\<close>: the start time is set
  when it is zero; then the count is added to the sampling window and to the total,
  passed to \<^verbatim>\<open>Stats.Bytes\<close> and to \<^verbatim>\<open>limitBandwidth\<close>.
\<close>

definition set_start :: "time \<Rightarrow> nat \<Rightarrow> world \<Rightarrow> world" where
  "set_start now a w =
     update_account a (\<lambda>acc. if IsZero (start acc) then acc\<lparr>start := now\<rparr> else acc) w"

definition account_bytes :: "nat \<Rightarrow> int \<Rightarrow> world \<Rightarrow> world" where
  "account_bytes a n w =
     limitBandwidth n (Stats_Bytes n
       (update_account a
          (\<lambda>acc. acc\<lparr>lpBytes := wrap64 (lpBytes acc + n), bytes := wrap64 (bytes acc + n)\<rparr>) w))"

text \<open>Two facts for the termination of the reads below.\<close>

lemma length_accounts_set_start: "length (accounts (set_start now a w)) = length (accounts w)"
  by (simp add: set_start_def update_account_def)

lemma card_unlocked_pos:
  assumes "a < (n::nat)" "a \<notin> L"
  shows "0 < card ({..<n} - L)"
proof -
  have "a \<in> {..<n} - L" using assms by simp
  then show ?thesis by (metis card_gt_0_iff empty_iff finite_Diff finite_lessThan)
qed

text \<open>
  \<open>read\<close> is \<^verbatim>\<open>Account.read\<close>, \<open>Read\<close> is \<^verbatim>\<open>Account.Read\<close>, and \<open>reader_Read\<close> is the
  call \<^verbatim>\<open>in.Read(p)\<close> on an interface value, which dispatches on the dynamic type; its
  second equation is \<^verbatim>\<open>accountStream.Read\<close>. \<open>L\<close> holds the accounts whose \<^verbatim>\<open>mu\<close> the
  goroutine has locked; \<open>now\<close> is what \<^verbatim>\<open>time.Now()\<close> returns during the call.
\<close>

function (sequential)
  read :: "nat set \<Rightarrow> time \<Rightarrow> nat \<Rightarrow> reader \<Rightarrow> world \<Rightarrow> fault + ((int \<times> error option) \<times> world)" and
  Read :: "nat set \<Rightarrow> time \<Rightarrow> nat \<Rightarrow> world \<Rightarrow> fault + ((int \<times> error option) \<times> world)" and
  reader_Read :: "nat set \<Rightarrow> time \<Rightarrow> reader \<Rightarrow> world \<Rightarrow> fault + ((int \<times> error option) \<times> world)"
where
  "read L now a inp w =
     (if a < length (accounts w) then
        (case reader_Read L now inp (set_start now a w) of
           Inl f \<Rightarrow> Inl f
         | Inr ((n, err), w') \<Rightarrow> Inr ((n, err), account_bytes a n w'))
      else Inl Invalid)"
| "Read L now a w =
     (if a \<in> L then Inl Deadlock
      else if a < length (accounts w) then read (insert a L) now a (acc_in (accounts w ! a)) w
      else Inl Invalid)"
| "reader_Read L now (ReadCloser rc) w = stream_Read rc w"
| "reader_Read L now (AccountStream a inp) w = read L now a inp w"
| "reader_Read L now (AccountReader a) w = Read L now a w"
  by pat_completeness auto

termination
  by (relation "inv_image (less_than <*lex*> less_than)
    (\<lambda>x. case x of
       Inl (L, now, a, inp, w) \<Rightarrow> (card ({..<length (accounts w)} - L), 2 * size inp + 2)
     | Inr (Inl (L, now, a, w)) \<Rightarrow> (card ({..<length (accounts w)} - L), 0::nat)
     | Inr (Inr (L, now, inp, w)) \<Rightarrow> (card ({..<length (accounts w)} - L), 2 * size inp + 1))")
    (auto simp add: length_accounts_set_start card_unlocked_pos)

text \<open>\<^verbatim>\<open>Close\<close>. Closing a channel that is closed already panics.\<close>

definition Close :: "nat \<Rightarrow> world \<Rightarrow> fault + (error option \<times> world)" where
  "Close a w =
     (if a < length (accounts w) then
        (let acc = accounts w ! a
         in if closed acc then Inr (None, w)
            else case exit acc of
                   Closed \<Rightarrow> Inl (Panic ''close of closed channel'')
                 | Open \<Rightarrow>
                     stream_Close (close acc)
                       (inProgress_clear (name acc)
                          (update_account a (\<lambda>acc. acc\<lparr>closed := True, exit := Closed\<rparr>) w)))
      else Inl Invalid)"

text \<open>
  \<^verbatim>\<open>progress\<close>, \<^verbatim>\<open>speed\<close> and \<^verbatim>\<open>eta\<close> read the account only; their receiver is the
  account, or \<open>None\<close> for the nil pointer. \<open>eta_left\<close> is the local variable \<^verbatim>\<open>left\<close> of
  \<^verbatim>\<open>eta\<close>.
\<close>

definition progress :: "account option \<Rightarrow> int \<times> int" where
  "progress acc = (case acc of None \<Rightarrow> (0, 0) | Some ac \<Rightarrow> (bytes ac, acc_size ac))"

definition speed :: "time \<Rightarrow> account option \<Rightarrow> float64 \<times> float64" where
  "speed now acc =
     (case acc of
        None \<Rightarrow> (Finite 0, Finite 0)
      | Some ac \<Rightarrow>
          if bytes ac = 0 then (Finite 0, Finite 0)
          else let total = f64_div (f64_of_int (Sub now (start ac))) (f64_of_int Second)
               in (f64_div (f64_of_int (bytes ac)) total, avg ac))"

definition eta_left :: "account \<Rightarrow> int" where
  "eta_left ac = wrap64 (acc_size ac - bytes ac)"

definition eta :: "env \<Rightarrow> account option \<Rightarrow> duration \<times> bool" where
  "eta e acc =
     (case acc of
        None \<Rightarrow> (0, False)
      | Some ac \<Rightarrow>
          if acc_size ac \<le> 0 then (0, False)
          else if bytes ac = 0 then (0, False)
          else let left = eta_left ac
               in if left \<le> 0 then (0, True)
                  else if f64_le_zero (avg ac) then (0, False)
                  else let seconds = f64_div (f64_of_int left) (avg ac)
                       in (wrap64 (Second * f64_to_int64 (float_to_int e) seconds), True))"

text \<open>
  \<^verbatim>\<open>String\<close>, with four of its local variables as functions of their own: \<^verbatim>\<open>etas\<close>,
  \<^verbatim>\<open>name\<close> after the truncation, \<^verbatim>\<open>cur\<close> in the unit of the configuration, and
  \<^verbatim>\<open>percentageDone\<close>. With a nil receiver the three queries return and the read of
  \<^verbatim>\<open>acc.name\<close> panics.
\<close>

definition String_etas :: "env \<Rightarrow> duration \<times> bool \<Rightarrow> gostring" where
  "String_etas e r =
     (case r of (d, etaok) \<Rightarrow>
        if etaok then (if 0 < d then Duration_String e d else runes ''0s'')
        else runes ''-'')"

definition String_name :: "env \<Rightarrow> gostring \<Rightarrow> gostring" where
  "String_name e nm =
     (if 0 < StatsFileNameLength e then
        (if StatsFileNameLength e < int (length nm)
         then runes ''...'' @ drop (nat (int (length nm) - StatsFileNameLength e)) nm
         else nm)
      else nm)"

definition String_cur :: "env \<Rightarrow> float64 \<Rightarrow> float64" where
  "String_cur e cur = (if DataRateUnit e = runes ''bits'' then f64_mul cur (Finite 8) else cur)"

definition String_percentageDone :: "env \<Rightarrow> int \<Rightarrow> int \<Rightarrow> int" where
  "String_percentageDone e a b =
     (if 0 < b
      then f64_to_int64 (float_to_int e) (f64_div (f64_mul (Finite 100) (f64_of_int a)) (f64_of_int b))
      else 0)"

definition String :: "env \<Rightarrow> time \<Rightarrow> account option \<Rightarrow> fault + gostring" where
  "String e now acc =
     (case progress acc of (a, b) \<Rightarrow>
      case speed now acc of (bps, cur) \<Rightarrow>
      let etas = String_etas e (eta e acc)
      in case acc of
           None \<Rightarrow> Inl (Panic ''nil pointer dereference'')
         | Some ac \<Rightarrow>
             let nm = String_name e (name ac);
                 dn = pad_left 2 (itoa (String_percentageDone e a b)) @ runes ''% /''
                        @ SizeSuffix_String e b
             in Inr (pad_left 45 nm @ runes '': '' @ dn @ runes '', ''
                       @ SizeSuffix_String e (f64_to_int64 (float_to_int e) (String_cur e cur))
                       @ runes ''/s, '' @ etas))"

section \<open>Unwrapping and wrapping\<close>

definition OldStream :: "nat \<Rightarrow> world \<Rightarrow> fault + reader" where
  "OldStream a w = (if a < length (accounts w) then Inr (acc_in (accounts w ! a)) else Inl Invalid)"

definition SetStream :: "nat \<Rightarrow> reader \<Rightarrow> world \<Rightarrow> fault + world" where
  "SetStream a inp w =
     (if a < length (accounts w) then Inr (update_account a (\<lambda>acc. acc\<lparr>acc_in := inp\<rparr>) w)
      else Inl Invalid)"

definition WrapStream :: "nat \<Rightarrow> reader \<Rightarrow> reader" where
  "WrapStream a inp = AccountStream a inp"

text \<open>
  \<^verbatim>\<open>UnWrap\<close>. The type assertion \<^verbatim>\<open>in.(Accounter)\<close> holds of an \<^verbatim>\<open>*accountStream\<close>,
  whose \<^verbatim>\<open>OldStream\<close> is its field \<^verbatim>\<open>in\<close> and whose \<^verbatim>\<open>WrapStream\<close> is that of its
  account, and of an \<^verbatim>\<open>*Account\<close>.
\<close>

fun UnWrap :: "world \<Rightarrow> reader \<Rightarrow> fault + (reader \<times> (reader \<Rightarrow> reader))" where
  "UnWrap w (ReadCloser rc) = Inr (ReadCloser rc, \<lambda>r. r)"
| "UnWrap w (AccountStream a inp) = Inr (inp, WrapStream a)"
| "UnWrap w (AccountReader a) =
     (case OldStream a w of Inl f \<Rightarrow> Inl f | Inr inp \<Rightarrow> Inr (inp, WrapStream a))"

section \<open>Sequences of calls\<close>

text \<open>One call of \<^verbatim>\<open>Read\<close> for each time of the list, by a goroutine that holds no mutex.\<close>

fun Reads :: "time list \<Rightarrow> nat \<Rightarrow> world \<Rightarrow> fault + ((int \<times> error option) list \<times> world)" where
  "Reads [] a w = Inr ([], w)"
| "Reads (now # nows) a w =
     (case Read {} now a w of
        Inl f \<Rightarrow> Inl f
      | Inr (r, w1) \<Rightarrow>
          (case Reads nows a w1 of Inl f \<Rightarrow> Inl f | Inr (rs, w2) \<Rightarrow> Inr (r # rs, w2)))"

text \<open>The answers a stream gives to its next \<open>k\<close> calls of \<^verbatim>\<open>Read\<close>.\<close>

fun script_results :: "(int \<times> error option) list \<Rightarrow> nat \<Rightarrow> (int \<times> error option) list" where
  "script_results rs 0 = []"
| "script_results [] (Suc k) = (0, Some EOF) # script_results [] k"
| "script_results (r # rs) (Suc k) = r # script_results rs k"

definition stream_results :: "stream \<Rightarrow> nat \<Rightarrow> (int \<times> error option) list" where
  "stream_results s k = script_results (reads s) k"

text \<open>\<open>k\<close> calls of \<^verbatim>\<open>Close\<close> in a row.\<close>

fun Closes :: "nat \<Rightarrow> nat \<Rightarrow> world \<Rightarrow> fault + (error option list \<times> world)" where
  "Closes 0 a w = Inr ([], w)"
| "Closes (Suc k) a w =
     (case Close a w of
        Inl f \<Rightarrow> Inl f
      | Inr (r, w1) \<Rightarrow>
          (case Closes k a w1 of Inl f \<Rightarrow> Inl f | Inr (rs, w2) \<Rightarrow> Inr (r # rs, w2)))"

text \<open>
  A round trip, as the code that decorates readers makes it:
  \<^verbatim>\<open>in, wrap := UnWrap(in); in = wrap(decorate(in))\<close>; and one round trip for each
  decorator of a list.
\<close>

definition round_trip :: "world \<Rightarrow> (reader \<Rightarrow> reader) \<Rightarrow> reader \<Rightarrow> fault + reader" where
  "round_trip w decorate inp =
     (case UnWrap w inp of Inl f \<Rightarrow> Inl f | Inr (unwrapped, wrap) \<Rightarrow> Inr (wrap (decorate unwrapped)))"

fun round_trips :: "world \<Rightarrow> (reader \<Rightarrow> reader) list \<Rightarrow> reader \<Rightarrow> fault + reader" where
  "round_trips w [] inp = Inr inp"
| "round_trips w (d # ds) inp =
     (case round_trip w d inp of Inl f \<Rightarrow> Inl f | Inr inp' \<Rightarrow> round_trips w ds inp')"

text \<open>The account an \<^verbatim>\<open>Accounter\<close> accounts into.\<close>

fun accounter_of :: "reader \<Rightarrow> nat option" where
  "accounter_of (ReadCloser rc) = None"
| "accounter_of (AccountStream a inp) = Some a"
| "accounter_of (AccountReader a) = Some a"

section \<open>Example states\<close>

text \<open>
  A stream that yields 3 bytes, 2 bytes and the end of the stream, and whose \<^verbatim>\<open>Close\<close>
  fails; a heap holding it alone; an environment with a budget of 16 buffers of
  1 MiB and names cut to 5 runes, on a platform that converts what it cannot represent
  to the smallest integer; and the account made on that heap for a file of 1000 bytes.
\<close>

definition example_stream :: stream where
  "example_stream =
     \<lparr>reads = [(3, None), (2, None), (0, Some EOF)], close_result = Some (Error ''close failed''),
      close_calls = 0, abandoned = False\<rparr>"

definition example_world :: world where
  "example_world =
     \<lparr>accounts = [], streams = [example_stream], inProgress = Map.empty, stats_bytes = 0,
      limited = [], logged = []\<rparr>"

definition example_env :: env where
  "example_env =
     \<lparr>BufferSize = 16777216, StatsFileNameLength = 5, DataRateUnit = runes ''bytes'',
      asyncreader_BufferSize = 1048576,
      asyncreader_New = (\<lambda>rc n. Inr \<lparr>reads = [], close_result = None, close_calls = 0,
                                       abandoned = False\<rparr>),
      SizeSuffix_String = itoa, Duration_String = (\<lambda>d. itoa d @ runes ''ns''),
      float_to_int = (\<lambda>v. min_int64)\<rparr>"

definition example_heap :: world where
  "example_heap = snd (NewAccountSizeName 7 (Source 0) 1000 (runes ''abcdefghij'') example_world)"

definition example_account :: account where
  "example_account = accounts example_heap ! 0"

text \<open>
  The account after \<^verbatim>\<open>acc.SetStream(acc.WrapStream(in))\<close>, where \<^verbatim>\<open>in\<close> is the stream it
  was made on, and the heap after one \<^verbatim>\<open>Read\<close> of that account at time 10.
\<close>

definition example_heap_wrapped :: world where
  "example_heap_wrapped =
     update_account 0 (\<lambda>acc. acc\<lparr>acc_in := WrapStream 0 (ReadCloser (Source 0))\<rparr>) example_heap"

definition example_heap_wrapped_read :: world where
  "example_heap_wrapped_read =
     account_bytes 0 3 (account_bytes 0 3
       (update_stream 0 (\<lambda>s. s\<lparr>reads := [(2, None), (0, Some EOF)]\<rparr>)
          (set_start 10 0 example_heap_wrapped)))"

text \<open>The same with a file of unknown size, and with a constructor of buffers that fails.\<close>

definition example_heap_unknown_size :: world where
  "example_heap_unknown_size =
     snd (NewAccountSizeName 7 (Source 0) (- 1) (runes ''abcdefghij'') example_world)"

definition example_env_no_buffers :: env where
  "example_env_no_buffers = example_env\<lparr>asyncreader_New := (\<lambda>rc n. Inl (Error ''no memory''))\<rparr>"

text \<open>
  An account with 750 of 1000 bytes left at a smoothed speed of 50 bytes per second, and a
  stalled one with 10 GB left at 1 byte per second.
\<close>

definition example_account_running :: account where
  "example_account_running = example_account\<lparr>bytes := 250, avg := Finite 50\<rparr>"

definition example_account_stalled :: account where
  "example_account_stalled =
     example_account\<lparr>acc_size := 10000000001, bytes := 1, avg := Finite 1\<rparr>"

section \<open>Rounding to binary64\<close>

lemma pow2_pos: "0 < pow2 k" by (simp add: pow2_def)

lemma pow2_powi: "pow2 k = 2 powi k"
  by (simp add: pow2_def power_int_def field_simps)

lemma pow2_add: "pow2 (a + b) = pow2 a * pow2 b"
  by (simp add: pow2_powi power_int_add)

lemma pow2_nat: "0 \<le> k \<Longrightarrow> pow2 k = 2 ^ nat k"
  by (simp add: pow2_def)

lemma pow2_neg: "k \<le> 0 \<Longrightarrow> pow2 k = 1 / 2 ^ nat (- k)"
  by (simp add: pow2_def)

lemma pow2_mono: "a \<le> b \<Longrightarrow> pow2 a \<le> pow2 b"
  by (simp add: pow2_powi power_int_increasing)

lemma rat_pow_le_of_int: "(2::int) ^ m \<le> n \<Longrightarrow> (2::rat) ^ m \<le> of_int n"
  by simp

lemma f64_exponent_ge1:
  assumes "1 \<le> x"
  shows "pow2 (f64_exponent x) \<le> x \<and> x < pow2 (f64_exponent x + 1)"
proof -
  let ?n = "\<lfloor>x\<rfloor>"
  have n: "0 < ?n" using assms by linarith
  from bitlen_bounds [OF n]
  have lo: "2 ^ nat (bitlen ?n - 1) \<le> ?n" and hi: "?n < 2 ^ nat (bitlen ?n)" by auto
  have b1: "1 \<le> bitlen ?n" using n by (simp add: bitlen_alt_def)
  have e: "f64_exponent x = bitlen ?n - 1" using assms by (simp add: f64_exponent_def)
  have fl: "of_int ?n \<le> x" "x < of_int ?n + 1" by linarith+
  have "(2::rat) ^ nat (bitlen ?n - 1) \<le> of_int ?n" using lo by simp
  then have "(2::rat) ^ nat (bitlen ?n - 1) \<le> x" using fl by linarith
  then have l: "pow2 (bitlen ?n - 1) \<le> x"
    using b1 by (simp add: pow2_nat)
  have "?n + 1 \<le> 2 ^ nat (bitlen ?n)" using hi by simp
  then have "(of_int ?n :: rat) + 1 \<le> 2 ^ nat (bitlen ?n)"
    by (metis of_int_1 of_int_add of_int_le_numeral_power_cancel_iff)
  then have "x < 2 ^ nat (bitlen ?n)" using fl by linarith
  then have h: "x < pow2 (bitlen ?n)"
    using b1 by (simp add: pow2_nat)
  show ?thesis using l h e by simp
qed

lemma f64_exponent_lt1:
  assumes "0 < x" "x < 1"
  shows "pow2 (f64_exponent x) \<le> x \<and> x < pow2 (f64_exponent x + 1)"
proof -
  let ?c = "\<lceil>1 / x\<rceil>"
  let ?k = "bitlen (?c - 1)"
  have inv: "1 < 1 / x" using assms by simp
  have c2: "2 \<le> ?c" using inv by linarith
  have c: "0 < ?c - 1" using c2 by simp
  from bitlen_bounds [OF c]
  have lo: "2 ^ nat (?k - 1) \<le> ?c - 1" and hi: "?c - 1 < 2 ^ nat ?k" by auto
  have k1: "1 \<le> ?k" using c by (simp add: bitlen_alt_def)
  have e: "f64_exponent x = - ?k" using assms by (simp add: f64_exponent_def)
  have cl: "1 / x \<le> of_int ?c" "of_int ?c - 1 < 1 / x" by linarith+
  have "?c \<le> 2 ^ nat ?k" using hi by simp
  then have "(of_int ?c :: rat) \<le> 2 ^ nat ?k" by simp
  then have "1 / x \<le> 2 ^ nat ?k" using cl by linarith
  then have "1 \<le> 2 ^ nat ?k * x" using assms by (simp add: field_simps)
  then have l: "pow2 (- ?k) \<le> x" using k1 by (simp add: pow2_neg field_simps)
  have "(2::rat) ^ nat (?k - 1) \<le> of_int (?c - 1)" using lo by (rule rat_pow_le_of_int)
  then have "(2::rat) ^ nat (?k - 1) \<le> of_int ?c - 1" by simp
  then have "2 ^ nat (?k - 1) < 1 / x" using cl by linarith
  then have "x < 1 / 2 ^ nat (?k - 1)" using assms by (simp add: field_simps)
  moreover have "pow2 (- ?k + 1) = 1 / 2 ^ nat (?k - 1)"
    using k1 pow2_neg [of "- ?k + 1"] by simp
  ultimately have h: "x < pow2 (- ?k + 1)" by (simp only:)
  show ?thesis using l h e by simp
qed

lemma f64_exponent_bounds:
  "0 < x \<Longrightarrow> pow2 (f64_exponent x) \<le> x \<and> x < pow2 (f64_exponent x + 1)"
  using f64_exponent_ge1 [of x] f64_exponent_lt1 [of x] by (cases "1 \<le> x") auto

lemma round_half_even_int: "round_half_even (of_int k) = k"
  by (simp add: round_half_even_def)

lemma round_half_even_err: "\<bar>of_int (round_half_even q) - q\<bar> \<le> 1 / 2"
  unfolding round_half_even_def Let_def
  apply (auto simp: abs_if)
  apply linarith+
  done

lemma pow2_less_imp: "pow2 a < pow2 b \<Longrightarrow> a < b"
  using pow2_mono [of b a] by (cases "a < b") auto

lemma pow2_53: "pow2 53 = 2 ^ 53" by (simp add: pow2_def)

lemma pow2_0: "pow2 0 = 1" by (simp add: pow2_def)

lemma f64_round_int:
  assumes "\<bar>n\<bar> < 2 ^ 53"
  shows "f64_round (of_int n) = Finite (of_int n)"
proof (cases "n = 0")
  case True
  then show ?thesis by (simp add: f64_round_def)
next
  case False
  let ?x = "of_int n :: rat"
  let ?e = "f64_exponent \<bar>?x\<bar>"
  have a1: "1 \<le> \<bar>?x\<bar>" using False by (metis of_int_abs int_one_le_iff_zero_less of_int_1_le_iff zero_less_abs_iff)
  have a2: "\<bar>?x\<bar> < 2 ^ 53" using assms by (metis of_int_abs of_int_less_numeral_power_cancel_iff)
  have pos: "0 < \<bar>?x\<bar>" using a1 by linarith
  from f64_exponent_bounds [OF pos]
  have lo: "pow2 ?e \<le> \<bar>?x\<bar>" and hi: "\<bar>?x\<bar> < pow2 (?e + 1)" by auto
  have "pow2 ?e < pow2 53" using lo a2 by (simp add: pow2_53)
  then have e53: "?e < 53" by (rule pow2_less_imp)
  have "pow2 0 < pow2 (?e + 1)" using hi a1 by (simp add: pow2_0)
  then have e0: "0 \<le> ?e" using pow2_less_imp by fastforce
  define k where "k = nat (52 - ?e)"
  have u: "pow2 (max ?e (- 1022) - 52) = 1 / 2 ^ k"
    using e0 e53 pow2_neg [of "?e - 52"] by (simp add: k_def max_def)
  have "?x / (1 / 2 ^ k) = of_int (n * 2 ^ k)" by simp
  then have m: "round_half_even (?x / (1 / 2 ^ k)) = n * 2 ^ k"
    by (simp only: round_half_even_int)
  have r: "of_int (round_half_even (?x / (1 / 2 ^ k))) * (1 / 2 ^ k) = ?x"
    by (simp only: m) simp
  have big: "(2::rat) ^ 53 < 2 ^ 1024" by simp
  have "\<not> 2 ^ 1024 \<le> ?x" "\<not> ?x \<le> - (2 ^ 1024)" using a2 big by linarith+
  then show ?thesis using False
    by (simp only: f64_round_def Let_def u r) simp
qed

lemma f64_round_err:
  assumes "pow2 (- 1022) \<le> x" "x < 2 ^ 1023"
  shows "\<exists>r. f64_round x = Finite r \<and> \<bar>r - x\<bar> \<le> x / 2 ^ 53"
proof -
  let ?e = "f64_exponent \<bar>x\<bar>"
  have pos: "0 < x" using assms(1) pow2_pos [of "- 1022"] by linarith
  then have ax: "\<bar>x\<bar> = x" by simp
  from f64_exponent_bounds [OF pos]
  have lo: "pow2 ?e \<le> x" and hi: "x < pow2 (?e + 1)" by (simp_all add: ax)
  have "pow2 (- 1022) < pow2 (?e + 1)" using assms(1) hi by linarith
  then have e: "- 1022 \<le> ?e" using pow2_less_imp by fastforce
  define u where "u = pow2 (?e - 52)"
  define m where "m = round_half_even (x / u)"
  have upos: "0 < u" by (simp add: u_def pow2_pos)
  have "\<bar>of_int m - x / u\<bar> \<le> 1 / 2" unfolding m_def by (rule round_half_even_err)
  then have "\<bar>of_int m - x / u\<bar> * u \<le> 1 / 2 * u" using upos by (simp add: mult_right_mono)
  moreover have "\<bar>of_int m - x / u\<bar> * u = \<bar>of_int m * u - x\<bar>"
  proof -
    have "\<bar>of_int m - x / u\<bar> * u = \<bar>(of_int m - x / u) * u\<bar>"
      using upos by (simp add: abs_mult)
    also have "(of_int m - x / u) * u = of_int m * u - x"
      using upos by (simp add: left_diff_distrib)
    finally show ?thesis .
  qed
  ultimately have err: "\<bar>of_int m * u - x\<bar> \<le> u / 2" by simp
  have "pow2 ?e = pow2 (?e - 52) * pow2 52" using pow2_add [of "?e - 52" 52] by simp
  then have "u = pow2 ?e / 2 ^ 52" by (simp add: u_def pow2_def)
  then have "u / 2 \<le> x / 2 ^ 53" using lo by (simp add: field_simps)
  then have bound: "\<bar>of_int m * u - x\<bar> \<le> x / 2 ^ 53" using err by linarith
  have "x / 2 ^ 53 \<le> x" using pos by (simp add: field_simps)
  then have r0: "0 \<le> of_int m * u" and r1: "of_int m * u \<le> 2 * x" using bound by linarith+
  have "2 * x < 2 ^ 1024" using assms(2) by simp
  then have fin: "\<not> 2 ^ 1024 \<le> of_int m * u" "\<not> of_int m * u \<le> - (2 ^ 1024)"
    using r0 r1 by linarith+
  have "f64_round x = Finite (of_int m * u)"
    using pos e fin unfolding f64_round_def Let_def u_def m_def by (simp add: max_def)
  then show ?thesis using bound by blast
qed

lemma f64_div_int:
  assumes "0 \<le> x" "0 < y" "x + y \<le> 2 ^ 53"
  shows "\<exists>q. f64_div (Finite (of_int x)) (Finite (of_int y)) = Finite q \<and> \<lfloor>q\<rfloor> = x div y \<and> 0 \<le> q"
proof -
  let ?t = "of_int x / of_int y :: rat"
  let ?N = "x div y"
  have ypos: "(0::rat) < of_int y" using assms(2) by simp
  have d: "f64_div (Finite (of_int x)) (Finite (of_int y)) = f64_round ?t"
    using assms(2) by simp
  show ?thesis
  proof (cases "x mod y = 0")
    case True
    then have "x = ?N * y" by auto
    then have "(of_int x :: rat) = of_int ?N * of_int y" by (metis of_int_mult)
    then have t: "?t = of_int ?N" using ypos by simp
    have "0 \<le> ?N" using assms by (simp add: pos_imp_zdiv_nonneg_iff)
    moreover have "?N \<le> x" using assms(1) by (cases "x = 0") (simp_all add: int_div_le_self)
    ultimately have "\<bar>?N\<bar> < 2 ^ 53" using assms by linarith
    then have "f64_round (of_int ?N) = Finite (of_int ?N)" by (rule f64_round_int)
    then show ?thesis using d t \<open>0 \<le> ?N\<close> by simp
  next
    case False
    define rm where "rm = x mod y"
    have "0 \<le> x mod y" "x mod y < y" using assms(2) by simp_all
    then have rm: "1 \<le> rm" "rm \<le> y - 1" "x = ?N * y + rm"
      unfolding rm_def using False by (linarith, linarith, simp)
    let ?y = "of_int y :: rat" and ?r = "of_int rm :: rat" and ?x = "of_int x :: rat"
    have "?x = of_int ?N * ?y + ?r"
      using rm(3) by (metis of_int_add of_int_mult)
    then have t: "?t = of_int ?N + ?r / ?y" using ypos by (simp add: field_simps)
    have "1 \<le> ?r" "?r \<le> ?y - 1"
      using rm by (metis of_int_1 of_int_le_iff, metis of_int_1 of_int_diff of_int_le_iff)
    then have f1: "1 / ?y \<le> ?r / ?y" and f2: "?r / ?y \<le> 1 - 1 / ?y"
      using ypos by (simp_all add: field_simps)
    have N0: "0 \<le> ?N" using assms by (simp add: pos_imp_zdiv_nonneg_iff)
    then have N0': "(0::rat) \<le> of_int ?N" by simp
    have "x < 2 ^ 53" "y \<le> 2 ^ 53" using assms by linarith+
    then have xb: "?x < 2 ^ 53" "?y \<le> 2 ^ 53" by simp_all
    have x0: "0 \<le> ?x" using assms(1) by simp
    have y1: "1 \<le> ?y" using assms(2) by (metis of_int_1_le_iff int_one_le_iff_zero_less)
    have tlo: "1 / ?y \<le> ?t" using t f1 N0' by linarith
    have "(1::rat) / 2 ^ 53 \<le> 1 / ?y" using xb ypos by (simp add: field_simps)
    moreover have "pow2 (- 1022) \<le> 1 / 2 ^ 53" by (simp add: pow2_def)
    ultimately have a1: "pow2 (- 1022) \<le> ?t" using tlo by linarith
    have "?x \<le> ?x * ?y" using x0 y1 by (simp add: mult_le_cancel_left1)
    then have "?t \<le> ?x" using ypos by (simp add: field_simps)
    moreover have "(2::rat) ^ 53 < 2 ^ 1023" by simp
    ultimately have a2: "?t < 2 ^ 1023" using xb by linarith
    from f64_round_err [OF a1 a2] obtain q
      where q: "f64_round ?t = Finite q" "\<bar>q - ?t\<bar> \<le> ?t / 2 ^ 53" by blast
    have "?t / 2 ^ 53 < 1 / ?y" using xb ypos by (simp add: field_simps)
    then have "\<bar>q - ?t\<bar> < 1 / ?y" using q(2) by linarith
    then have qq: "of_int ?N < q" "q < of_int ?N + 1" using t f1 f2 by linarith+
    then have "\<lfloor>q\<rfloor> = ?N" by linarith
    moreover have "0 \<le> q" using qq N0' by linarith
    ultimately have "\<lfloor>q\<rfloor> = ?N \<and> 0 \<le> q" by simp
    then show ?thesis using d q(1) by simp
  qed
qed

section \<open>The example states, unfolded\<close>

lemmas example_defs = example_heap_def example_account_def example_world_def example_stream_def
  example_env_def NewAccountSizeName_def inProgress_set_def

section \<open>The queries\<close>

text \<open>
  Claim C7. \<^verbatim>\<open>progress\<close>, \<^verbatim>\<open>speed\<close> and \<^verbatim>\<open>eta\<close> return on a nil receiver:
  \<^verbatim>\<open>progress\<close> and \<^verbatim>\<open>speed\<close> return two zeros and \<^verbatim>\<open>eta\<close> returns \<^verbatim>\<open>ok = false\<close>.
  On an account from which no byte has been read \<^verbatim>\<open>speed\<close> returns zero for the
  overall rate and for the smoothed rate.
\<close>

theorem queries_nil_safe:
  "progress None = (0, 0) \<and> speed now None = (Finite 0, Finite 0) \<and> snd (eta e None) = False \<and>
   (bytes ac = 0 \<longrightarrow> speed now (Some ac) = (Finite 0, Finite 0))"
  by (simp add: progress_def speed_def eta_def)

theorem queries_nil_safe_witness:
  "bytes example_account = 0 \<and> speed 9 (Some example_account) = (Finite 0, Finite 0) \<and>
   progress None = (0, 0) \<and> speed 9 None = (Finite 0, Finite 0) \<and> snd (eta example_env None) = False"
  using queries_nil_safe [of 9 example_env example_account]
  by (simp add: example_defs)

section \<open>Reading\<close>

subsection \<open>Wrap-around\<close>

lemma wrap64_add_left: "wrap64 (wrap64 x + y) = wrap64 (x + y)"
proof -
  have "(wrap64 x + y + 2 ^ 63) mod 2 ^ 64 = (x + y + 2 ^ 63) mod 2 ^ 64"
    unfolding wrap64_def by (simp add: mod_simps algebra_simps)
  then show ?thesis by (simp add: wrap64_def)
qed

lemma wrap64_id: "is_int64 x \<Longrightarrow> wrap64 x = x"
  by (simp add: wrap64_def is_int64_def min_int64_def max_int64_def)

lemma is_int64_wrap64: "is_int64 (wrap64 x)"
  unfolding wrap64_def is_int64_def min_int64_def max_int64_def
  using pos_mod_sign [of "2 ^ 64" "x + 2 ^ 63"] pos_mod_bound [of "2 ^ 64" "x + 2 ^ 63"]
  by simp

subsection \<open>One read, and a sequence of reads, of an account on an outside stream\<close>

lemma stream_reads_same: "reads s = rs \<Longrightarrow> s\<lparr>reads := rs\<rparr> = s"
  by auto

lemma update_stream_tl_Nil:
  assumes "reads (streams w ! i) = []"
  shows "update_stream i (\<lambda>s. s\<lparr>reads := tl (reads s)\<rparr>) w = w"
proof -
  have "(streams w ! i)\<lparr>reads := tl (reads (streams w ! i))\<rparr> = streams w ! i"
    using assms by (intro stream_reads_same) simp
  then show ?thesis by (simp add: update_stream_def)
qed

lemma update_stream_eq:
  "f (streams w ! i) = g (streams w ! i) \<Longrightarrow> update_stream i f w = update_stream i g w"
  by (simp add: update_stream_def)

lemma streams_set_start: "streams (set_start now a w) = streams w"
  by (simp add: set_start_def update_account_def)

lemma accounts_update_stream: "accounts (update_stream i f w) = accounts w"
  by (simp add: update_stream_def)

lemma read_external:
  assumes "a < length (accounts w)" and "address rc < length (streams w)"
  shows "read L now a (ReadCloser rc) w =
     Inr (hd (stream_results (streams w ! address rc) 1),
          account_bytes a (fst (hd (stream_results (streams w ! address rc) 1)))
            (update_stream (address rc) (\<lambda>s. s\<lparr>reads := tl (reads s)\<rparr>) (set_start now a w)))"
proof (cases "reads (streams w ! address rc)")
  case Nil
  then have "reads (streams (set_start now a w) ! address rc) = []"
    by (simp add: streams_set_start)
  from update_stream_tl_Nil [OF this] Nil show ?thesis using assms
    by (simp add: stream_Read_def stream_results_def streams_set_start
        length_accounts_set_start)
next
  case (Cons r rs)
  let ?w = "set_start now a w"
  have "update_stream (address rc) (\<lambda>s. s\<lparr>reads := rs\<rparr>) ?w =
        update_stream (address rc) (\<lambda>s. s\<lparr>reads := tl (reads s)\<rparr>) ?w"
    using Cons by (intro update_stream_eq) (simp add: streams_set_start)
  then show ?thesis using assms Cons
    by (cases r) (simp add: stream_Read_def stream_results_def streams_set_start
        length_accounts_set_start)
qed

lemma Read_external:
  assumes "a < length (accounts w)" and "acc_in (accounts w ! a) = ReadCloser rc"
    and "address rc < length (streams w)"
  shows "Read {} now a w =
     Inr (hd (stream_results (streams w ! address rc) 1),
          account_bytes a (fst (hd (stream_results (streams w ! address rc) 1)))
            (update_stream (address rc) (\<lambda>s. s\<lparr>reads := tl (reads s)\<rparr>) (set_start now a w)))"
proof -
  have "Read {} now a w = read {a} now a (ReadCloser rc) w"
    using assms(1,2) by simp
  then show ?thesis
    using read_external [OF assms(1,3)] by (simp only:)
qed

lemma accounts_account_bytes:
  "a < length (accounts w) \<Longrightarrow>
   accounts (account_bytes a n w) ! a =
     (accounts w ! a)\<lparr>lpBytes := wrap64 (lpBytes (accounts w ! a) + n),
                      bytes := wrap64 (bytes (accounts w ! a) + n)\<rparr>"
  by (simp add: account_bytes_def update_account_def Stats_Bytes_def limitBandwidth_def)

lemma length_accounts_account_bytes: "length (accounts (account_bytes a n w)) = length (accounts w)"
  by (simp add: account_bytes_def update_account_def Stats_Bytes_def limitBandwidth_def)

lemma streams_account_bytes: "streams (account_bytes a n w) = streams w"
  by (simp add: account_bytes_def update_account_def Stats_Bytes_def limitBandwidth_def)

lemma accounts_set_start:
  "a < length (accounts w) \<Longrightarrow>
   accounts (set_start now a w) ! a =
     (if IsZero (start (accounts w ! a)) then (accounts w ! a)\<lparr>start := now\<rparr> else accounts w ! a)"
  by (simp add: set_start_def update_account_def)

lemma script_results_Suc:
  "script_results rs (Suc k) = hd (script_results rs 1) # script_results (tl rs) k"
  by (cases rs) simp_all

lemma Reads_external:
  assumes "a < length (accounts w)" and "acc_in (accounts w ! a) = ReadCloser rc"
    and "address rc < length (streams w)"
    and "is_int64 (bytes (accounts w ! a))"
  shows "\<exists>w'. Reads nows a w = Inr (stream_results (streams w ! address rc) (length nows), w') \<and>
           a < length (accounts w') \<and>
           bytes (accounts w' ! a) =
             wrap64 (bytes (accounts w ! a) +
                     sum_list (map fst (stream_results (streams w ! address rc) (length nows)))) \<and>
           acc_size (accounts w' ! a) = acc_size (accounts w ! a)"
  using assms
proof (induction nows arbitrary: w)
  case Nil
  then show ?case by (simp add: stream_results_def wrap64_id)
next
  case (Cons now nows)
  let ?i = "address rc"
  define r where "r = hd (stream_results (streams w ! ?i) 1)"
  let ?w1 = "account_bytes a (fst r)
       (update_stream ?i (\<lambda>s. s\<lparr>reads := tl (reads s)\<rparr>) (set_start now a w))"
  have R: "Read {} now a w = Inr (r, ?w1)"
    unfolding r_def using Cons.prems(1-3) by (rule Read_external)
  have len: "a < length (accounts ?w1)"
    using Cons.prems(1)
    by (simp add: length_accounts_account_bytes accounts_update_stream length_accounts_set_start)
  have acc1: "accounts ?w1 ! a =
      (accounts (set_start now a w) ! a)\<lparr>lpBytes := wrap64 (lpBytes (accounts w ! a) + fst r),
                      bytes := wrap64 (bytes (accounts w ! a) + fst r)\<rparr>"
    using Cons.prems(1)
    by (simp add: accounts_account_bytes accounts_update_stream length_accounts_set_start
        accounts_set_start)
  have in1: "acc_in (accounts ?w1 ! a) = ReadCloser rc"
    using Cons.prems(1,2) by (simp add: acc1 accounts_set_start)
  have st1: "streams ?w1 ! ?i = (streams w ! ?i)\<lparr>reads := tl (reads (streams w ! ?i))\<rparr>"
    "?i < length (streams ?w1)"
    using Cons.prems(3)
    by (simp_all add: streams_account_bytes update_stream_def streams_set_start)
  have b: "bytes (accounts ?w1 ! a) = wrap64 (bytes (accounts w ! a) + fst r)"
      "acc_size (accounts ?w1 ! a) = acc_size (accounts w ! a)"
    using Cons.prems(1) by (simp_all add: acc1 accounts_set_start)
  have i64: "is_int64 (bytes (accounts ?w1 ! a))"
    by (simp only: b is_int64_wrap64)
  from Cons.IH [OF len in1 st1(2) i64] obtain w' where
    w': "Reads nows a ?w1 = Inr (stream_results (streams ?w1 ! ?i) (length nows), w')"
      "a < length (accounts w')"
      "bytes (accounts w' ! a) = wrap64 (bytes (accounts ?w1 ! a) +
          sum_list (map fst (stream_results (streams ?w1 ! ?i) (length nows))))"
      "acc_size (accounts w' ! a) = acc_size (accounts ?w1 ! a)"
    by blast
  have res: "stream_results (streams w ! ?i) (length (now # nows)) =
      r # stream_results (streams ?w1 ! ?i) (length nows)"
  proof -
    have rd1: "reads (streams ?w1 ! ?i) = tl (reads (streams w ! ?i))"
      by (simp add: st1(1))
    have "stream_results (streams w ! ?i) (Suc (length nows)) =
        hd (stream_results (streams w ! ?i) 1) # stream_results (streams ?w1 ! ?i) (length nows)"
      unfolding stream_results_def rd1 by (rule script_results_Suc)
    then show ?thesis by (simp add: r_def)
  qed
  have c1: "Reads (now # nows) a w = Inr (stream_results (streams w ! ?i) (length (now # nows)), w')"
    using R w'(1) res by simp
  have c3: "bytes (accounts w' ! a) = wrap64 (bytes (accounts w ! a) +
       sum_list (map fst (stream_results (streams w ! ?i) (length (now # nows)))))"
    by (simp only: w'(3) b res wrap64_add_left list.map sum_list.Cons add.assoc)
  have c5: "acc_size (accounts w' ! a) = acc_size (accounts w ! a)"
    by (simp only: w'(4) b)
  show ?case
    by (intro exI [of _ w'] conjI) (rule c1 w'(2) c3 c5)+
qed

text \<open>
  Claim C1 as it is stated fails on an account whose stream is an accounting stage of the
  same account: after \<^verbatim>\<open>acc.SetStream(acc.WrapStream(in))\<close> a \<^verbatim>\<open>Read\<close> passes through
  \<^verbatim>\<open>read\<close> twice, once in \<^verbatim>\<open>accountStream.Read\<close> and once in \<^verbatim>\<open>Account.Read\<close>. It
  returns 3 and adds 6 to \<^verbatim>\<open>bytes\<close> and to \<^verbatim>\<open>lpBytes\<close>, and \<^verbatim>\<open>progress\<close> returns 6.
\<close>

theorem Read_counts_twice:
  "SetStream 0 (WrapStream 0 (ReadCloser (Source 0))) example_heap = Inr example_heap_wrapped \<and>
   bytes (accounts example_heap_wrapped ! 0) = 0 \<and>
   lpBytes (accounts example_heap_wrapped ! 0) = 0 \<and>
   Read {} 10 0 example_heap_wrapped = Inr ((3, None), example_heap_wrapped_read) \<and>
   bytes (accounts example_heap_wrapped_read ! 0) = 6 \<and>
   lpBytes (accounts example_heap_wrapped_read ! 0) = 6 \<and>
   progress (Some (accounts example_heap_wrapped_read ! 0)) = (6, 1000) \<and>
   fst (progress (Some (accounts example_heap_wrapped_read ! 0))) \<noteq> 3"
proof -
  have s: "SetStream 0 (WrapStream 0 (ReadCloser (Source 0))) example_heap = Inr example_heap_wrapped"
    by (simp add: SetStream_def example_heap_wrapped_def example_defs)
  have r: "Read {} 10 0 example_heap_wrapped = Inr ((3, None), example_heap_wrapped_read)"
    by (simp add: example_heap_wrapped_def example_heap_wrapped_read_def example_defs
        WrapStream_def stream_Read_def set_start_def update_account_def update_stream_def
        IsZero_def)
  have b: "bytes (accounts example_heap_wrapped ! 0) = 0"
    "lpBytes (accounts example_heap_wrapped ! 0) = 0"
    by (simp_all add: example_heap_wrapped_def example_defs update_account_def)
  have a: "bytes (accounts example_heap_wrapped_read ! 0) = 6"
    "lpBytes (accounts example_heap_wrapped_read ! 0) = 6"
    "acc_size (accounts example_heap_wrapped_read ! 0) = 1000"
    by (simp_all add: example_heap_wrapped_def example_heap_wrapped_read_def example_defs
        account_bytes_def Stats_Bytes_def limitBandwidth_def set_start_def update_account_def
        update_stream_def wrap64_def)
  show ?thesis
    using s r b a by (simp add: progress_def del: Read.simps)
qed

text \<open>
  Claim C1, amended. Let the stream of an account be an outside stream: a source or a
  buffering layer, not an accounting stage. A call of \<^verbatim>\<open>Read\<close> returns the pair
  \<open>(n, err)\<close> the stream returned, an error or the end of the stream included, and adds
  \<open>n\<close> to \<^verbatim>\<open>bytes\<close> and to the sampling window \<^verbatim>\<open>lpBytes\<close>. A sequence of calls returns
  the pairs of the stream in order; after the calls \<^verbatim>\<open>bytes\<close> has grown by the sum of the
  \<open>n\<close>, in \<^verbatim>\<open>int64\<close> arithmetic, and \<^verbatim>\<open>progress\<close> returns that count with the size. The
  count is the exact sum whenever the sum is an \<^verbatim>\<open>int64\<close>.
\<close>

theorem Read_counts_bytes:
  assumes "a < length (accounts w)" and "acc_in (accounts w ! a) = ReadCloser rc"
    and "address rc < length (streams w)"
    and "is_int64 (bytes (accounts w ! a))"
  shows "(\<exists>w1. Read {} now a w = Inr (hd (stream_results (streams w ! address rc) 1), w1) \<and>
            bytes (accounts w1 ! a) =
              wrap64 (bytes (accounts w ! a) + fst (hd (stream_results (streams w ! address rc) 1))) \<and>
            lpBytes (accounts w1 ! a) =
              wrap64 (lpBytes (accounts w ! a) + fst (hd (stream_results (streams w ! address rc) 1)))) \<and>
         (\<exists>w'. Reads nows a w = Inr (stream_results (streams w ! address rc) (length nows), w') \<and>
            bytes (accounts w' ! a) =
              wrap64 (bytes (accounts w ! a) +
                      sum_list (map fst (stream_results (streams w ! address rc) (length nows)))) \<and>
            progress (Some (accounts w' ! a)) =
              (wrap64 (bytes (accounts w ! a) +
                       sum_list (map fst (stream_results (streams w ! address rc) (length nows)))),
               acc_size (accounts w ! a)) \<and>
            (is_int64 (bytes (accounts w ! a) +
                       sum_list (map fst (stream_results (streams w ! address rc) (length nows)))) \<longrightarrow>
             fst (progress (Some (accounts w' ! a))) =
               bytes (accounts w ! a) +
               sum_list (map fst (stream_results (streams w ! address rc) (length nows)))))"
proof (rule conjI)
  define r where "r = hd (stream_results (streams w ! address rc) 1)"
  let ?w1 = "account_bytes a (fst r)
       (update_stream (address rc) (\<lambda>s. s\<lparr>reads := tl (reads s)\<rparr>) (set_start now a w))"
  have R: "Read {} now a w = Inr (r, ?w1)"
    unfolding r_def using assms(1-3) by (rule Read_external)
  have acc1: "accounts ?w1 ! a =
      (accounts (set_start now a w) ! a)\<lparr>lpBytes := wrap64 (lpBytes (accounts w ! a) + fst r),
                      bytes := wrap64 (bytes (accounts w ! a) + fst r)\<rparr>"
    using assms(1)
    by (simp add: accounts_account_bytes accounts_update_stream length_accounts_set_start
        accounts_set_start)
  have b: "bytes (accounts ?w1 ! a) = wrap64 (bytes (accounts w ! a) + fst r)"
      "lpBytes (accounts ?w1 ! a) = wrap64 (lpBytes (accounts w ! a) + fst r)"
    using assms(1) by (simp_all add: acc1 accounts_set_start)
  show "\<exists>w1. Read {} now a w = Inr (hd (stream_results (streams w ! address rc) 1), w1) \<and>
            bytes (accounts w1 ! a) =
              wrap64 (bytes (accounts w ! a) + fst (hd (stream_results (streams w ! address rc) 1))) \<and>
            lpBytes (accounts w1 ! a) =
              wrap64 (lpBytes (accounts w ! a) + fst (hd (stream_results (streams w ! address rc) 1)))"
    unfolding r_def [symmetric]
    by (intro exI [of _ ?w1] conjI) (rule R b)+
next
  from Reads_external [OF assms, of nows] obtain w' where
    w': "Reads nows a w = Inr (stream_results (streams w ! address rc) (length nows), w')"
      "bytes (accounts w' ! a) =
             wrap64 (bytes (accounts w ! a) +
                     sum_list (map fst (stream_results (streams w ! address rc) (length nows))))"
      "acc_size (accounts w' ! a) = acc_size (accounts w ! a)"
    by blast
  have p: "progress (Some (accounts w' ! a)) =
             (wrap64 (bytes (accounts w ! a) +
                      sum_list (map fst (stream_results (streams w ! address rc) (length nows)))),
              acc_size (accounts w ! a))"
    by (simp add: progress_def w'(2,3))
  show "\<exists>w'. Reads nows a w = Inr (stream_results (streams w ! address rc) (length nows), w') \<and>
            bytes (accounts w' ! a) =
              wrap64 (bytes (accounts w ! a) +
                      sum_list (map fst (stream_results (streams w ! address rc) (length nows)))) \<and>
            progress (Some (accounts w' ! a)) =
              (wrap64 (bytes (accounts w ! a) +
                       sum_list (map fst (stream_results (streams w ! address rc) (length nows)))),
               acc_size (accounts w ! a)) \<and>
            (is_int64 (bytes (accounts w ! a) +
                       sum_list (map fst (stream_results (streams w ! address rc) (length nows)))) \<longrightarrow>
             fst (progress (Some (accounts w' ! a))) =
               bytes (accounts w ! a) +
               sum_list (map fst (stream_results (streams w ! address rc) (length nows))))"
    by (intro exI [of _ w'] conjI impI) (simp_all add: w' p wrap64_id)
qed

theorem Read_counts_bytes_witness:
  "0 < length (accounts example_heap) \<and>
   acc_in (accounts example_heap ! 0) = ReadCloser (Source 0) \<and>
   address (Source 0) < length (streams example_heap) \<and>
   is_int64 (bytes (accounts example_heap ! 0)) \<and>
   (\<exists>w1. Read {} 10 0 example_heap = Inr ((3, None), w1) \<and>
         bytes (accounts w1 ! 0) = 3 \<and> lpBytes (accounts w1 ! 0) = 3) \<and>
   (\<exists>w'. Reads [10, 11, 12, 13] 0 example_heap =
            Inr ([(3, None), (2, None), (0, Some EOF), (0, Some EOF)], w') \<and>
         bytes (accounts w' ! 0) = 5 \<and>
         progress (Some (accounts w' ! 0)) = (5, 1000))"
proof -
  have h: "0 < length (accounts example_heap)"
    "acc_in (accounts example_heap ! 0) = ReadCloser (Source 0)"
    "address (Source 0) < length (streams example_heap)"
    "is_int64 (bytes (accounts example_heap ! 0))"
    by (simp_all add: example_defs is_int64_def min_int64_def max_int64_def)
  have v: "bytes (accounts example_heap ! 0) = 0" "lpBytes (accounts example_heap ! 0) = 0"
    "acc_size (accounts example_heap ! 0) = 1000"
    by (simp_all add: example_defs)
  have sr: "stream_results (streams example_heap ! address (Source 0)) (length [10, 11, 12, 13 :: int]) =
      [(3, None), (2, None), (0, Some EOF), (0, Some EOF)]"
    "hd (stream_results (streams example_heap ! address (Source 0)) 1) = (3, None)"
    by (simp_all add: example_defs stream_results_def)
  note T = Read_counts_bytes [OF h, of 10 "[10, 11, 12, 13]", unfolded sr v]
  from T have one: "\<exists>w1. Read {} 10 0 example_heap = Inr ((3, None), w1) \<and>
         bytes (accounts w1 ! 0) = 3 \<and> lpBytes (accounts w1 ! 0) = 3"
    by (simp add: wrap64_def del: Read.simps Reads.simps)
  from T have seq: "\<exists>w'. Reads [10, 11, 12, 13] 0 example_heap =
            Inr ([(3, None), (2, None), (0, Some EOF), (0, Some EOF)], w') \<and>
         bytes (accounts w' ! 0) = 5 \<and>
         progress (Some (accounts w' ! 0)) = (5, 1000)"
    by (auto simp add: wrap64_def simp del: Read.simps Reads.simps)
  show ?thesis
    using h one seq by (simp del: Reads.simps Read.simps)
qed

section \<open>Closing\<close>

lemma Close_closed:
  "a < length (accounts w) \<Longrightarrow> closed (accounts w ! a) \<Longrightarrow> Close a w = Inr (None, w)"
  by (simp add: Close_def)

lemma Closes_closed:
  "a < length (accounts w) \<Longrightarrow> closed (accounts w ! a) \<Longrightarrow> Closes k a w = Inr (replicate k None, w)"
  by (induction k) (simp_all add: Close_closed)

lemma Close_open:
  assumes "a < length (accounts w)" and "\<not> closed (accounts w ! a)" and "exit (accounts w ! a) = Open"
    and "address (close (accounts w ! a)) < length (streams w)"
  shows "Close a w =
     Inr (close_result (streams w ! address (close (accounts w ! a))),
          update_stream (address (close (accounts w ! a))) (\<lambda>s. s\<lparr>close_calls := Suc (close_calls s)\<rparr>)
            ((update_account a (\<lambda>acc. acc\<lparr>closed := True, exit := Closed\<rparr>) w)
               \<lparr>inProgress := (inProgress w)(name (accounts w ! a) := None)\<rparr>))"
  using assms by (simp add: Close_def stream_Close_def update_account_def inProgress_clear_def Let_def)

text \<open>
  Claim C3. On an account that is not closed, whose stop channel is open, the first
  \<^verbatim>\<open>Close\<close> marks the account closed, closes the stop channel, removes the name from the
  registry, calls \<^verbatim>\<open>Close\<close> on the closer once and returns what that call returned.
  Every later \<^verbatim>\<open>Close\<close> returns nil and changes nothing: after any number of calls the
  closer has been closed exactly once, and no call panics on the closed channel.
\<close>

theorem Close_idempotent:
  assumes "a < length (accounts w)" and "\<not> closed (accounts w ! a)" and "exit (accounts w ! a) = Open"
    and "address (close (accounts w ! a)) < length (streams w)"
  shows "\<exists>w'. Close a w = Inr (close_result (streams w ! address (close (accounts w ! a))), w') \<and>
     Closes (Suc k) a w =
       Inr (close_result (streams w ! address (close (accounts w ! a))) # replicate k None, w') \<and>
     closed (accounts w' ! a) \<and> exit (accounts w' ! a) = Closed \<and>
     inProgress w' (name (accounts w ! a)) = None \<and>
     close_calls (streams w' ! address (close (accounts w ! a))) =
       Suc (close_calls (streams w ! address (close (accounts w ! a))))"
proof -
  let ?i = "address (close (accounts w ! a))"
  let ?w' = "update_stream ?i (\<lambda>s. s\<lparr>close_calls := Suc (close_calls s)\<rparr>)
            ((update_account a (\<lambda>acc. acc\<lparr>closed := True, exit := Closed\<rparr>) w)
               \<lparr>inProgress := (inProgress w)(name (accounts w ! a) := None)\<rparr>)"
  have C: "Close a w = Inr (close_result (streams w ! ?i), ?w')"
    using assms by (rule Close_open)
  have acc: "a < length (accounts ?w')" "closed (accounts ?w' ! a)" "exit (accounts ?w' ! a) = Closed"
    using assms(1) by (simp_all add: update_stream_def update_account_def)
  have rest: "Closes k a ?w' = Inr (replicate k None, ?w')"
    using acc(1,2) by (rule Closes_closed)
  have all: "Closes (Suc k) a w = Inr (close_result (streams w ! ?i) # replicate k None, ?w')"
    by (simp only: Closes.simps C rest sum.case prod.case)
  have reg: "inProgress ?w' (name (accounts w ! a)) = None"
    by (simp add: update_stream_def update_account_def)
  have calls: "close_calls (streams ?w' ! ?i) = Suc (close_calls (streams w ! ?i))"
    using assms(4) by (simp add: update_stream_def update_account_def)
  show ?thesis
    by (intro exI [of _ ?w'] conjI) (rule C all acc(2,3) reg calls)+
qed

theorem Close_idempotent_witness:
  "0 < length (accounts example_heap) \<and> \<not> closed (accounts example_heap ! 0) \<and>
   exit (accounts example_heap ! 0) = Open \<and>
   address (close (accounts example_heap ! 0)) < length (streams example_heap) \<and>
   inProgress example_heap (runes ''abcdefghij'') = Some 0 \<and>
   close_calls (streams example_heap ! 0) = 0 \<and>
   (\<exists>w'. Close 0 example_heap = Inr (Some (Error ''close failed''), w') \<and>
         Closes 4 0 example_heap = Inr ([Some (Error ''close failed''), None, None, None], w') \<and>
         closed (accounts w' ! 0) \<and> exit (accounts w' ! 0) = Closed \<and>
         inProgress w' (runes ''abcdefghij'') = None \<and>
         close_calls (streams w' ! 0) = 1)"
proof -
  have h: "0 < length (accounts example_heap)" "\<not> closed (accounts example_heap ! 0)"
    "exit (accounts example_heap ! 0) = Open"
    "address (close (accounts example_heap ! 0)) < length (streams example_heap)"
    by (simp_all add: example_defs)
  have v: "address (close (accounts example_heap ! 0)) = 0"
    "close_result (streams example_heap ! 0) = Some (Error ''close failed'')"
    "name (accounts example_heap ! 0) = runes ''abcdefghij''"
    "close_calls (streams example_heap ! 0) = 0"
    "inProgress example_heap (runes ''abcdefghij'') = Some 0"
    by (simp_all add: example_defs)
  have k: "Suc 3 = 4" by simp
  show ?thesis
    using h v(4,5) Close_idempotent [OF h, of 3, unfolded v k]
    by (auto simp del: Closes.simps simp add: numeral_eq_Suc)
qed

section \<open>Unwrapping and wrapping again\<close>

lemma UnWrap_accounter:
  assumes "accounter_of inp = Some a" and "a < length (accounts w)"
  shows "\<exists>unwrapped. UnWrap w inp = Inr (unwrapped, WrapStream a)"
  using assms by (cases inp) (simp_all add: OldStream_def)

lemma round_trips_accounter:
  assumes "accounter_of inp = Some a" and "a < length (accounts w)"
  shows "\<exists>inp'. round_trips w ds inp = Inr inp' \<and> accounter_of inp' = Some a"
  using assms
proof (induction ds arbitrary: inp)
  case Nil
  then show ?case by simp
next
  case (Cons d ds)
  from UnWrap_accounter [OF Cons.prems] obtain u where u: "UnWrap w inp = Inr (u, WrapStream a)"
    by blast
  then have rt: "round_trip w d inp = Inr (AccountStream a (d u))"
    by (simp add: round_trip_def WrapStream_def)
  have "accounter_of (AccountStream a (d u)) = Some a" by simp
  from Cons.IH [OF this Cons.prems(2)] rt show ?case by simp
qed

text \<open>
  Claim C2. \<^verbatim>\<open>UnWrap\<close> returns a reader that is not an \<^verbatim>\<open>Accounter\<close> unchanged, with
  the identity. Of an \<^verbatim>\<open>Accounter\<close> on an account it returns the stream under it (the
  field \<^verbatim>\<open>in\<close>) and the \<^verbatim>\<open>WrapStream\<close> of the account. A read of \<open>WrapStream a x\<close> is
  \<^verbatim>\<open>read\<close> of the account \<open>a\<close> on \<open>x\<close>, the accounting stage \<^verbatim>\<open>Read\<close> of the account
  is too: on an outside stream it returns the pair of the stream and adds the count to
  the account, and wrapping the stream an account was unwrapped from reads as the account
  does. After any number of round trips, through any decorators, the reader is an
  \<^verbatim>\<open>Accounter\<close> on the same account, and \<^verbatim>\<open>UnWrap\<close> returns the same wrap function.
\<close>

theorem UnWrap_rewrap:
  "UnWrap w (ReadCloser rc) = Inr (ReadCloser rc, \<lambda>r. r) \<and>
   UnWrap w (AccountStream a inp) = Inr (inp, WrapStream a) \<and>
   (a < length (accounts w) \<longrightarrow> UnWrap w (AccountReader a) = Inr (acc_in (accounts w ! a), WrapStream a)) \<and>
   reader_Read L now (WrapStream a x) w' = read L now a x w' \<and>
   (a < length (accounts w') \<and> address rc < length (streams w') \<longrightarrow>
      reader_Read L now (WrapStream a (ReadCloser rc)) w' =
        Inr (hd (stream_results (streams w' ! address rc) 1),
             account_bytes a (fst (hd (stream_results (streams w' ! address rc) 1)))
               (update_stream (address rc) (\<lambda>s. s\<lparr>reads := tl (reads s)\<rparr>)
                  (set_start now a w')))) \<and>
   (a < length (accounts w) \<and> a \<notin> L \<longrightarrow>
      Read L now a w = read (insert a L) now a (acc_in (accounts w ! a)) w) \<and>
   (a < length (accounts w) \<and> acc_in (accounts w ! a) = ReadCloser rc \<longrightarrow>
      reader_Read {} now (WrapStream a (acc_in (accounts w ! a))) w = Read {} now a w) \<and>
   (a < length (accounts w) \<and> accounter_of s = Some a \<longrightarrow>
      (\<exists>s' unwrapped. round_trips w ds s = Inr s' \<and> accounter_of s' = Some a \<and>
          UnWrap w s' = Inr (unwrapped, WrapStream a)))"
proof -
  have rt: "\<exists>s' unwrapped. round_trips w ds s = Inr s' \<and> accounter_of s' = Some a \<and>
          UnWrap w s' = Inr (unwrapped, WrapStream a)"
    if h: "a < length (accounts w)" "accounter_of s = Some a"
  proof -
    from round_trips_accounter [OF h(2,1), of ds] obtain s' where
      s': "round_trips w ds s = Inr s'" "accounter_of s' = Some a" by blast
    from UnWrap_accounter [OF s'(2) h(1)] s' show ?thesis by blast
  qed
  have un: "reader_Read {} now (WrapStream a (acc_in (accounts w ! a))) w = Read {} now a w"
    if "a < length (accounts w)" "acc_in (accounts w ! a) = ReadCloser rc"
    using that by (simp add: WrapStream_def)
  show ?thesis
  proof (intro conjI impI)
    show "UnWrap w (ReadCloser rc) = Inr (ReadCloser rc, \<lambda>r. r)" by simp
    show "UnWrap w (AccountStream a inp) = Inr (inp, WrapStream a)" by simp
    show "UnWrap w (AccountReader a) = Inr (acc_in (accounts w ! a), WrapStream a)"
      if "a < length (accounts w)" using that by (simp add: OldStream_def)
    show "reader_Read L now (WrapStream a x) w' = read L now a x w'"
      by (simp add: WrapStream_def)
    show "reader_Read L now (WrapStream a (ReadCloser rc)) w' =
        Inr (hd (stream_results (streams w' ! address rc) 1),
             account_bytes a (fst (hd (stream_results (streams w' ! address rc) 1)))
               (update_stream (address rc) (\<lambda>s. s\<lparr>reads := tl (reads s)\<rparr>)
                  (set_start now a w')))"
      if "a < length (accounts w') \<and> address rc < length (streams w')"
      using that read_external [of a w' rc L now] by (simp only: WrapStream_def reader_Read.simps)
    show "Read L now a w = read (insert a L) now a (acc_in (accounts w ! a)) w"
      if "a < length (accounts w) \<and> a \<notin> L" using that by simp
    show "reader_Read {} now (WrapStream a (acc_in (accounts w ! a))) w = Read {} now a w"
      if "a < length (accounts w) \<and> acc_in (accounts w ! a) = ReadCloser rc"
      using that un by blast
    show "\<exists>s' unwrapped. round_trips w ds s = Inr s' \<and> accounter_of s' = Some a \<and>
          UnWrap w s' = Inr (unwrapped, WrapStream a)"
      if "a < length (accounts w) \<and> accounter_of s = Some a"
      using that rt by blast
  qed
qed

theorem UnWrap_rewrap_witness:
  "0 < length (accounts example_heap) \<and> 0 \<notin> ({} :: nat set) \<and>
   acc_in (accounts example_heap ! 0) = ReadCloser (Source 0) \<and>
   accounter_of (AccountReader 0) = Some 0 \<and>
   UnWrap example_heap (AccountReader 0) = Inr (ReadCloser (Source 0), WrapStream 0) \<and>
   reader_Read {} 9 (WrapStream 0 (ReadCloser (Source 0))) example_heap = Read {} 9 0 example_heap \<and>
   (\<exists>s' unwrapped.
      round_trips example_heap [\<lambda>r. r, \<lambda>r. AccountStream 0 r, \<lambda>r. r] (AccountReader 0) = Inr s' \<and>
      accounter_of s' = Some 0 \<and> UnWrap example_heap s' = Inr (unwrapped, WrapStream 0))"
proof -
  have h: "0 < length (accounts example_heap)"
    "acc_in (accounts example_heap ! 0) = ReadCloser (Source 0)"
    "accounter_of (AccountReader 0) = Some 0"
    by (simp_all add: example_defs)
  note T = UnWrap_rewrap [of example_heap "Source 0" 0 "ReadCloser (Source 0)" "{}" 9
        "ReadCloser (Source 0)" example_heap "AccountReader 0"
        "[\<lambda>r. r, \<lambda>r. AccountStream 0 r, \<lambda>r. r]"]
  from T h have c3: "UnWrap example_heap (AccountReader 0) =
      Inr (acc_in (accounts example_heap ! 0), WrapStream 0)" by blast
  from T h have c6: "reader_Read {} 9 (WrapStream 0 (acc_in (accounts example_heap ! 0))) example_heap =
      Read {} 9 0 example_heap" by blast
  from T h have c7: "\<exists>s' unwrapped.
      round_trips example_heap [\<lambda>r. r, \<lambda>r. AccountStream 0 r, \<lambda>r. r] (AccountReader 0) = Inr s' \<and>
      accounter_of s' = Some 0 \<and> UnWrap example_heap s' = Inr (unwrapped, WrapStream 0)" by blast
  show ?thesis
    using h c3 [unfolded h(2)] c6 [unfolded h(2)] c7
    by (simp del: UnWrap.simps round_trips.simps read.simps Read.simps reader_Read.simps)
qed

section \<open>Buffering\<close>

text \<open>On sizes and budgets that are not negative Go's division is \<open>div\<close>.\<close>

lemma go_div_nonneg:
  assumes "0 \<le> a" "0 < b" "a \<le> max_int64"
  shows "go_div a b = a div b"
proof -
  have "0 \<le> a div b" using assms by (simp add: pos_imp_zdiv_nonneg_iff)
  moreover have "a div b \<le> a" using assms(1) by (cases "a = 0") (simp_all add: int_div_le_self)
  ultimately have "is_int64 (a div b)"
    using assms(3) by (simp add: is_int64_def min_int64_def)
  then have "wrap64 (a div b) = a div b" by (rule wrap64_id)
  moreover have "sgn a * sgn b * (\<bar>a\<bar> div \<bar>b\<bar>) = a div b"
    using assms by (cases "a = 0") (simp_all add: sgn_if)
  ultimately show ?thesis by (simp only: go_div_def)
qed

text \<open>
  Claim C6. \<^verbatim>\<open>WithBuffer\<close> computes the number of buffers as the budget
  \<^verbatim>\<open>fs.Config.BufferSize\<close> divided by \<^verbatim>\<open>asyncreader.BufferSize\<close> when the size is -1 or at
  least the budget, and as the size divided by \<^verbatim>\<open>asyncreader.BufferSize\<close> otherwise. When
  that number is not positive the streams of the account are left as they are. Otherwise
  \<^verbatim>\<open>asyncreader.New\<close> is called on \<^verbatim>\<open>origIn\<close> with that number: when it fails the error
  is logged under the name of the account and the streams are left as they are; when it
  succeeds the new reader becomes \<^verbatim>\<open>in\<close> and \<^verbatim>\<open>close\<close>. In every case the call
  returns, and \<^verbatim>\<open>origIn\<close> and the byte count are unchanged.
\<close>

theorem WithBuffer_best_effort:
  assumes "a < length (accounts w)"
    and "acc = accounts w ! a"
    and "depth = (if acc_size acc = - 1 \<or> BufferSize e \<le> acc_size acc
                  then go_div (BufferSize e) (asyncreader_BufferSize e)
                  else go_div (acc_size acc) (asyncreader_BufferSize e))"
  shows "(depth \<le> 0 \<longrightarrow>
            WithBuffer e a w = Inr (update_account a (\<lambda>acc. acc\<lparr>withBuf := True\<rparr>) w)) \<and>
         (0 < depth \<longrightarrow>
            (case asyncreader_New e (origIn acc) depth of
               Inl err \<Rightarrow>
                 WithBuffer e a w =
                   Inr ((update_account a (\<lambda>acc. acc\<lparr>withBuf := True\<rparr>) w)
                          \<lparr>logged := logged w @ [(name acc, err)]\<rparr>)
             | Inr rc \<Rightarrow>
                 WithBuffer e a w =
                   Inr ((update_account a
                           (\<lambda>acc. acc\<lparr>withBuf := True,
                                       acc_in := ReadCloser (AsyncReader (length (streams w))),
                                       close := AsyncReader (length (streams w))\<rparr>) w)
                          \<lparr>streams := streams w @ [rc]\<rparr>))) \<and>
         (\<exists>w'. WithBuffer e a w = Inr w' \<and> origIn (accounts w' ! a) = origIn acc \<and>
            bytes (accounts w' ! a) = bytes acc \<and>
            (depth \<le> 0 \<or> (\<exists>err. asyncreader_New e (origIn acc) depth = Inl err) \<longrightarrow>
               acc_in (accounts w' ! a) = acc_in acc \<and> close (accounts w' ! a) = close acc \<and>
               streams w' = streams w))"
  using assms
  by (auto simp add: WithBuffer_def update_account_def Errorf_def Let_def split: sum.splits)

theorem WithBuffer_best_effort_witness:
  "WithBuffer example_env 0 example_heap =
     Inr (update_account 0 (\<lambda>acc. acc\<lparr>withBuf := True\<rparr>) example_heap) \<and>
   WithBuffer example_env 0 example_heap_unknown_size =
     Inr ((update_account 0
             (\<lambda>acc. acc\<lparr>withBuf := True, acc_in := ReadCloser (AsyncReader 1),
                         close := AsyncReader 1\<rparr>) example_heap_unknown_size)
            \<lparr>streams := streams example_heap_unknown_size @
                 [\<lparr>reads = [], close_result = None, close_calls = 0, abandoned = False\<rparr>]\<rparr>) \<and>
   WithBuffer example_env_no_buffers 0 example_heap_unknown_size =
     Inr ((update_account 0 (\<lambda>acc. acc\<lparr>withBuf := True\<rparr>) example_heap_unknown_size)
            \<lparr>logged := [(runes ''abcdefghij'', Error ''no memory'')]\<rparr>)"
proof -
  have d: "go_div 1000 1048576 = 0" "go_div 16777216 1048576 = 16"
    by (simp_all add: go_div_def wrap64_def)
  have h: "0 < length (accounts example_heap)" "0 < length (accounts example_heap_unknown_size)"
    by (simp_all add: example_defs example_heap_unknown_size_def)
  have v: "acc_size (accounts example_heap ! 0) = 1000"
    "acc_size (accounts example_heap_unknown_size ! 0) = - 1"
    "origIn (accounts example_heap_unknown_size ! 0) = Source 0"
    "name (accounts example_heap_unknown_size ! 0) = runes ''abcdefghij''"
    "length (streams example_heap_unknown_size) = 1"
    "logged example_heap_unknown_size = []"
    by (simp_all add: example_defs example_heap_unknown_size_def example_env_no_buffers_def)
  have e: "BufferSize example_env = 16777216" "asyncreader_BufferSize example_env = 1048576"
    "asyncreader_New example_env (Source 0) 16 =
       Inr \<lparr>reads = [], close_result = None, close_calls = 0, abandoned = False\<rparr>"
    "BufferSize example_env_no_buffers = 16777216"
    "asyncreader_BufferSize example_env_no_buffers = 1048576"
    "asyncreader_New example_env_no_buffers (Source 0) 16 = Inl (Error ''no memory'')"
    by (simp_all add: example_defs example_heap_unknown_size_def example_env_no_buffers_def)
  from WithBuffer_best_effort [OF h(1) refl refl, of example_env]
  have 1: "WithBuffer example_env 0 example_heap =
     Inr (update_account 0 (\<lambda>acc. acc\<lparr>withBuf := True\<rparr>) example_heap)"
    by (simp add: v e d)
  from WithBuffer_best_effort [OF h(2) refl refl, of example_env]
  have 2: "WithBuffer example_env 0 example_heap_unknown_size =
     Inr ((update_account 0
             (\<lambda>acc. acc\<lparr>withBuf := True, acc_in := ReadCloser (AsyncReader 1),
                         close := AsyncReader 1\<rparr>) example_heap_unknown_size)
            \<lparr>streams := streams example_heap_unknown_size @
                 [\<lparr>reads = [], close_result = None, close_calls = 0, abandoned = False\<rparr>]\<rparr>)"
    by (simp add: v e d)
  from WithBuffer_best_effort [OF h(2) refl refl, of example_env_no_buffers]
  have 3: "WithBuffer example_env_no_buffers 0 example_heap_unknown_size =
     Inr ((update_account 0 (\<lambda>acc. acc\<lparr>withBuf := True\<rparr>) example_heap_unknown_size)
            \<lparr>logged := [(runes ''abcdefghij'', Error ''no memory'')]\<rparr>)"
    by (simp add: v e d)
  show ?thesis using 1 2 3 by blast
qed

text \<open>
  Claim C5, evaluated where it fails. \<^verbatim>\<open>UpdateReader\<close> calls \<^verbatim>\<open>WithBuffer\<close> whether
  buffering was requested or not: on the example account of unknown size, for which
  \<^verbatim>\<open>WithBuffer\<close> was never called and \<^verbatim>\<open>withBuf\<close> is false, it installs an
  \<^verbatim>\<open>AsyncReader\<close> over the new source as \<^verbatim>\<open>in\<close> and \<^verbatim>\<open>close\<close> and sets \<^verbatim>\<open>withBuf\<close>.
  The new source becomes \<^verbatim>\<open>origIn\<close> and the byte count is unchanged.
\<close>

theorem UpdateReader_always_buffers:
  "withBuf (accounts example_heap_unknown_size ! 0) = False \<and>
   acc_in (accounts example_heap_unknown_size ! 0) = ReadCloser (Source 0) \<and>
   (\<exists>w'. UpdateReader example_env 0 (Source 0) example_heap_unknown_size = Inr w' \<and>
      acc_in (accounts w' ! 0) = ReadCloser (AsyncReader 1) \<and>
      close (accounts w' ! 0) = AsyncReader 1 \<and>
      origIn (accounts w' ! 0) = Source 0 \<and>
      withBuf (accounts w' ! 0) = True \<and>
      bytes (accounts w' ! 0) = bytes (accounts example_heap_unknown_size ! 0))"
proof -
  have d: "go_div 16777216 1048576 = 16"
    by (simp add: go_div_def wrap64_def)
  show ?thesis
    by (simp add: example_defs example_heap_unknown_size_def UpdateReader_def StopBuffering_def WithBuffer_def update_account_def d)
qed

section \<open>The estimated time\<close>

lemma f64_of_int_exact: "\<bar>n\<bar> < 2 ^ 53 \<Longrightarrow> f64_of_int n = Finite (of_int n)"
  by (simp add: f64_of_int_def f64_round_int)

text \<open>
  Claim C4, evaluated where the code fails it. \<^verbatim>\<open>eta\<close> multiplies the whole seconds by
  \<^verbatim>\<open>time.Second\<close> in \<^verbatim>\<open>int64\<close> with no check of the range: with 10000000000 bytes left
  at a smoothed speed of 1 byte per second the quotient is 10000000000 seconds, the
  product wraps around, and \<^verbatim>\<open>eta\<close> returns -8446744073709551616 nanoseconds with
  \<^verbatim>\<open>ok = true\<close>, which \<^verbatim>\<open>String\<close> renders as \<^verbatim>\<open>0s\<close>.
\<close>

theorem eta_overflows_duration:
  "eta example_env (Some example_account_stalled) = (- 8446744073709551616, True) \<and>
   acc_size example_account_stalled - bytes example_account_stalled = 10000000000 \<and>
   avg example_account_stalled = Finite 1 \<and>
   fst (eta example_env (Some example_account_stalled)) \<noteq> 10000000000 * Second \<and>
   String_etas example_env (eta example_env (Some example_account_stalled)) = runes ''0s''"
proof -
  have v: "acc_size example_account_stalled = 10000000001" "bytes example_account_stalled = 1"
    "avg example_account_stalled = Finite 1"
    "float_to_int example_env = (\<lambda>v. min_int64)"
    by (simp_all add: example_defs example_account_stalled_def)
  have l: "eta_left example_account_stalled = 10000000000"
    by (simp add: eta_left_def v wrap64_def)
  have f: "f64_of_int 10000000000 = Finite 10000000000"
    using f64_of_int_exact [of 10000000000] by simp
  have q: "f64_round 10000000000 = Finite 10000000000"
    using f64_round_int [of 10000000000] by simp
  have t: "trunc_rat 10000000000 = 10000000000"
    by (simp add: trunc_rat_def)
  have i: "is_int64 10000000000"
    by (simp add: is_int64_def min_int64_def max_int64_def)
  have w: "wrap64 (Second * 10000000000) = - 8446744073709551616"
    by (simp add: wrap64_def Second_def)
  have "eta example_env (Some example_account_stalled) = (- 8446744073709551616, True)"
    by (simp add: eta_def v l f q t i w)
  then show ?thesis by (simp add: v Second_def String_etas_def)
qed

text \<open>
  Where the product fits an \<^verbatim>\<open>int64\<close> the branches of \<^verbatim>\<open>eta\<close> return what is expected
  of them: \<^verbatim>\<open>ok = false\<close> when the size is not positive or no byte has been read;
  \<open>(0, true)\<close> when the bytes left are not positive; \<^verbatim>\<open>ok = false\<close> when the smoothed
  speed is not positive; and for a finite positive speed the binary64 quotient of the
  bytes left and the speed, cut to whole seconds. For a speed that is a whole number \<open>s\<close>
  of bytes per second, with the bytes left plus \<open>s\<close> at most \<open>2 ^ 53\<close>, that is the integer
  quotient of the bytes left and \<open>s\<close>: 750 bytes at 50 bytes per second are 15 seconds.
\<close>

lemma eta_within_duration:
  "(acc_size ac \<le> 0 \<or> bytes ac = 0 \<longrightarrow> snd (eta e (Some ac)) = False) \<and>
   (0 < acc_size ac \<and> bytes ac \<noteq> 0 \<and> eta_left ac \<le> 0 \<longrightarrow> eta e (Some ac) = (0, True)) \<and>
   (0 < acc_size ac \<and> bytes ac \<noteq> 0 \<and> 0 < eta_left ac \<and> f64_le_zero (avg ac) \<longrightarrow>
      snd (eta e (Some ac)) = False) \<and>
   (0 < acc_size ac \<and> bytes ac \<noteq> 0 \<and> 0 < eta_left ac \<and> avg ac = Finite v \<and> 0 < v \<and>
    f64_div (f64_of_int (eta_left ac)) (Finite v) = Finite q \<and>
    is_int64 (trunc_rat q * Second) \<longrightarrow>
      eta e (Some ac) = (trunc_rat q * Second, True)) \<and>
   (0 < acc_size ac \<and> bytes ac \<noteq> 0 \<and> 0 < eta_left ac \<and> avg ac = Finite (of_int s) \<and> 0 < s \<and>
    eta_left ac + s \<le> 2 ^ 53 \<and> is_int64 (eta_left ac div s * Second) \<longrightarrow>
      eta e (Some ac) = (eta_left ac div s * Second, True)) \<and>
   (0 \<le> bytes ac \<and> is_int64 (bytes ac) \<and> 0 < acc_size ac \<and> is_int64 (acc_size ac) \<longrightarrow>
      eta_left ac = acc_size ac - bytes ac)"
proof -
  have fits: "eta e (Some ac) = (trunc_rat q * Second, True)"
    if h: "0 < acc_size ac" "bytes ac \<noteq> 0" "0 < eta_left ac" "avg ac = Finite v" "0 < v"
      "f64_div (f64_of_int (eta_left ac)) (Finite v) = Finite q" "is_int64 (trunc_rat q * Second)"
    for v q
  proof -
    have "is_int64 (trunc_rat q)"
      using h(7) unfolding is_int64_def min_int64_def max_int64_def Second_def by linarith
    moreover have "wrap64 (Second * trunc_rat q) = trunc_rat q * Second"
      using wrap64_id [OF h(7)] by (simp add: mult.commute)
    ultimately show ?thesis
      using h by (simp add: eta_def Let_def)
  qed
  show ?thesis
  proof (intro conjI impI)
    assume "acc_size ac \<le> 0 \<or> bytes ac = 0"
    then show "snd (eta e (Some ac)) = False" by (auto simp add: eta_def)
  next
    assume "0 < acc_size ac \<and> bytes ac \<noteq> 0 \<and> eta_left ac \<le> 0"
    then show "eta e (Some ac) = (0, True)" by (simp add: eta_def)
  next
    assume "0 < acc_size ac \<and> bytes ac \<noteq> 0 \<and> 0 < eta_left ac \<and> f64_le_zero (avg ac)"
    then show "snd (eta e (Some ac)) = False" by (simp add: eta_def)
  next
    assume "0 < acc_size ac \<and> bytes ac \<noteq> 0 \<and> 0 < eta_left ac \<and> avg ac = Finite v \<and> 0 < v \<and>
      f64_div (f64_of_int (eta_left ac)) (Finite v) = Finite q \<and> is_int64 (trunc_rat q * Second)"
    then show "eta e (Some ac) = (trunc_rat q * Second, True)"
      using fits by blast
  next
    assume h: "0 < acc_size ac \<and> bytes ac \<noteq> 0 \<and> 0 < eta_left ac \<and> avg ac = Finite (of_int s) \<and>
      0 < s \<and> eta_left ac + s \<le> 2 ^ 53 \<and> is_int64 (eta_left ac div s * Second)"
    then have "\<bar>eta_left ac\<bar> < 2 ^ 53" by linarith
    then have f: "f64_of_int (eta_left ac) = Finite (of_int (eta_left ac))"
      by (rule f64_of_int_exact)
    from h have "0 \<le> eta_left ac" "0 < s" "eta_left ac + s \<le> 2 ^ 53" by simp_all
    from f64_div_int [OF this] obtain q where
      q: "f64_div (Finite (of_int (eta_left ac))) (Finite (of_int s)) = Finite q"
        "\<lfloor>q\<rfloor> = eta_left ac div s" "0 \<le> q"
      by blast
    have t: "trunc_rat q = eta_left ac div s"
      using q(2,3) by (simp add: trunc_rat_def)
    have "(0::rat) < of_int s" using h by simp
    then have "eta e (Some ac) = (trunc_rat q * Second, True)"
      using h f q(1) t by (intro fits [of "of_int s" q]) simp_all
    then show "eta e (Some ac) = (eta_left ac div s * Second, True)"
      by (simp only: t)
  next
    assume "0 \<le> bytes ac \<and> is_int64 (bytes ac) \<and> 0 < acc_size ac \<and> is_int64 (acc_size ac)"
    then have "is_int64 (acc_size ac - bytes ac)"
      by (simp add: is_int64_def min_int64_def max_int64_def)
    then show "eta_left ac = acc_size ac - bytes ac"
      by (simp add: eta_left_def wrap64_id)
  qed
qed

lemma eta_within_duration_example:
  "0 < acc_size example_account_running \<and> bytes example_account_running \<noteq> 0 \<and>
   0 < eta_left example_account_running \<and>
   0 \<le> bytes example_account_running \<and> is_int64 (bytes example_account_running) \<and>
   is_int64 (acc_size example_account_running) \<and>
   acc_size example_account_running = 1000 \<and> bytes example_account_running = 250 \<and>
   eta_left example_account_running = 750 \<and>
   avg example_account_running = Finite (of_int 50) \<and> (0::int) < 50 \<and>
   eta_left example_account_running + 50 \<le> 2 ^ 53 \<and>
   is_int64 (eta_left example_account_running div 50 * Second) \<and>
   f64_div (f64_of_int (eta_left example_account_running)) (Finite 50) = Finite 15 \<and>
   is_int64 (trunc_rat 15 * Second) \<and>
   eta example_env (Some example_account_running) = (15 * Second, True) \<and>
   eta example_env (Some (example_account_running\<lparr>bytes := 0\<rparr>)) = (0, False) \<and>
   eta example_env (Some (example_account_running\<lparr>bytes := 1000\<rparr>)) = (0, True) \<and>
   snd (eta example_env (Some (example_account_running\<lparr>acc_size := - 1\<rparr>))) = False \<and>
   snd (eta example_env (Some (example_account_running\<lparr>avg := Finite 0\<rparr>))) = False"
proof -
  have v: "acc_size example_account_running = 1000" "bytes example_account_running = 250"
    "avg example_account_running = Finite 50"
    by (simp_all add: example_defs example_account_running_def)
  have i: "is_int64 250" "is_int64 1000"
    by (simp_all add: is_int64_def min_int64_def max_int64_def)
  have l: "eta_left example_account_running = 750"
    "eta_left (example_account_running\<lparr>bytes := 1000\<rparr>) = 0"
    "eta_left (example_account_running\<lparr>avg := Finite 0\<rparr>) = 750"
    by (simp_all add: eta_left_def v wrap64_def)
  have f: "f64_of_int 750 = Finite 750"
    using f64_of_int_exact [of 750] by simp
  have q: "f64_round 15 = Finite 15"
    using f64_round_int [of 15] by simp
  have t: "trunc_rat 15 = 15"
    by (simp add: trunc_rat_def)
  have r: "is_int64 (15 * Second)"
    by (simp add: is_int64_def min_int64_def max_int64_def Second_def)
  note T = eta_within_duration
  have 0: "eta_left example_account_running = acc_size example_account_running - bytes example_account_running"
    using T [of example_account_running example_env 50 15 50] by (simp add: v i)
  have 1: "eta example_env (Some example_account_running) = (15 * Second, True)"
    using T [of example_account_running example_env 50 15 50] by (simp add: v l f q t r)
  have 2: "eta example_env (Some (example_account_running\<lparr>bytes := 0\<rparr>)) = (0, False)"
    using T [of "example_account_running\<lparr>bytes := 0\<rparr>" example_env 50 15 50]
    by (simp add: eta_def)
  have 3: "eta example_env (Some (example_account_running\<lparr>bytes := 1000\<rparr>)) = (0, True)"
    using T [of "example_account_running\<lparr>bytes := 1000\<rparr>" example_env 50 15 50]
    by (simp add: v l)
  have 4: "snd (eta example_env (Some (example_account_running\<lparr>acc_size := - 1\<rparr>))) = False"
    using T [of "example_account_running\<lparr>acc_size := - 1\<rparr>" example_env 50 15 50]
    by simp
  have 5: "snd (eta example_env (Some (example_account_running\<lparr>avg := Finite 0\<rparr>))) = False"
    using T [of "example_account_running\<lparr>avg := Finite 0\<rparr>" example_env 50 15 50]
    by (simp add: v l)
  show ?thesis
    using 1 2 3 4 5 by (simp add: v l f q t r i)
qed

section \<open>The line of statistics\<close>

lemma String_Some:
  "String e now (Some ac) =
     Inr (pad_left 45 (String_name e (name ac)) @ runes '': '' @
          pad_left 2 (itoa (String_percentageDone e (bytes ac) (acc_size ac))) @ runes ''% /'' @
          SizeSuffix_String e (acc_size ac) @ runes '', '' @
          SizeSuffix_String e (f64_to_int64 (float_to_int e) (String_cur e (snd (speed now (Some ac))))) @
          runes ''/s, '' @ String_etas e (eta e (Some ac)))"
  by (simp add: String_def progress_def Let_def split: prod.splits)

text \<open>
  The percentage is computed in binary64. It is the integer quotient whenever the numbers
  are small enough for the products and quotients to be rounded on the right side.
\<close>

lemma percentage_exact:
  assumes "0 \<le> a" "0 < b" "100 * a + b < 2 ^ 53"
  shows "String_percentageDone e a b = 100 * a div b"
proof -
  have a53: "\<bar>a\<bar> < 2 ^ 53" "\<bar>b\<bar> < 2 ^ 53" "\<bar>100 * a\<bar> < 2 ^ 53" using assms by linarith+
  have fa: "f64_of_int a = Finite (of_int a)" using a53(1) by (rule f64_of_int_exact)
  have fb: "f64_of_int b = Finite (of_int b)" using a53(2) by (rule f64_of_int_exact)
  have "f64_mul (Finite 100) (Finite (of_int a)) = f64_round (of_int (100 * a))" by simp
  also have "\<dots> = Finite (of_int (100 * a))" using a53(3) by (rule f64_round_int)
  finally have m: "f64_mul (Finite 100) (f64_of_int a) = Finite (of_int (100 * a))"
    by (simp only: fa)
  have "0 \<le> 100 * a" using assms(1) by simp
  moreover have "100 * a + b \<le> 2 ^ 53" using assms(3) by simp
  ultimately obtain q where
    q: "f64_div (Finite (of_int (100 * a))) (Finite (of_int b)) = Finite q"
      "\<lfloor>q\<rfloor> = 100 * a div b" "0 \<le> q"
    using f64_div_int [of "100 * a" b] assms(2) by blast
  have t: "trunc_rat q = 100 * a div b" using q(2,3) by (simp add: trunc_rat_def)
  have "0 \<le> 100 * a div b" using assms by (simp add: pos_imp_zdiv_nonneg_iff)
  moreover have "100 * a div b \<le> 100 * a"
    using \<open>0 \<le> 100 * a\<close> by (cases "100 * a = 0") (simp_all add: int_div_le_self)
  ultimately have i: "is_int64 (trunc_rat q)"
    using a53(3) by (simp add: t is_int64_def min_int64_def max_int64_def)
  have "String_percentageDone e a b =
      f64_to_int64 (float_to_int e) (f64_div (f64_mul (Finite 100) (f64_of_int a)) (f64_of_int b))"
    using assms(2) by (simp add: String_percentageDone_def)
  also have "\<dots> = f64_to_int64 (float_to_int e) (Finite q)"
    by (simp only: m fb q(1))
  also have "\<dots> = 100 * a div b"
    using i by (simp add: t)
  finally show ?thesis .
qed

text \<open>
  Claim C8. With a positive maximum length, a name that is longer is replaced by three
  dots followed by its last maximum-length runes; with the maximum length 0 the name is
  kept. The percentage is 0 when the size is not positive. \<^verbatim>\<open>String\<close> renders that name,
  right-aligned in 45 columns, then the percentage in two columns, the size, the speed and
  the estimated time.
\<close>

theorem String_truncates_name:
  "(0 < StatsFileNameLength e \<and> StatsFileNameLength e < int (length nm) \<longrightarrow>
      String_name e nm = runes ''...'' @ drop (length nm - nat (StatsFileNameLength e)) nm \<and>
      int (length (drop (length nm - nat (StatsFileNameLength e)) nm)) = StatsFileNameLength e) \<and>
   (StatsFileNameLength e = 0 \<longrightarrow> String_name e nm = nm) \<and>
   (b \<le> 0 \<longrightarrow> String_percentageDone e a b = 0) \<and>
   String e now (Some ac) =
     Inr (pad_left 45 (String_name e (name ac)) @ runes '': '' @
          pad_left 2 (itoa (String_percentageDone e (bytes ac) (acc_size ac))) @ runes ''% /'' @
          SizeSuffix_String e (acc_size ac) @ runes '', '' @
          SizeSuffix_String e (f64_to_int64 (float_to_int e) (String_cur e (snd (speed now (Some ac))))) @
          runes ''/s, '' @ String_etas e (eta e (Some ac)))"
proof (intro conjI impI)
  assume h: "0 < StatsFileNameLength e \<and> StatsFileNameLength e < int (length nm)"
  then have "nat (int (length nm) - StatsFileNameLength e) = length nm - nat (StatsFileNameLength e)"
    by linarith
  then show "String_name e nm = runes ''...'' @ drop (length nm - nat (StatsFileNameLength e)) nm"
    using h by (simp add: String_name_def)
  have "length (drop (length nm - nat (StatsFileNameLength e)) nm) = nat (StatsFileNameLength e)"
    using h by (simp only: length_drop) linarith
  then show "int (length (drop (length nm - nat (StatsFileNameLength e)) nm)) = StatsFileNameLength e"
    using h by simp
next
  assume "StatsFileNameLength e = 0"
  then show "String_name e nm = nm" by (simp add: String_name_def)
next
  assume "b \<le> 0"
  then show "String_percentageDone e a b = 0" by (simp add: String_percentageDone_def)
next
  show "String e now (Some ac) =
     Inr (pad_left 45 (String_name e (name ac)) @ runes '': '' @
          pad_left 2 (itoa (String_percentageDone e (bytes ac) (acc_size ac))) @ runes ''% /'' @
          SizeSuffix_String e (acc_size ac) @ runes '', '' @
          SizeSuffix_String e (f64_to_int64 (float_to_int e) (String_cur e (snd (speed now (Some ac))))) @
          runes ''/s, '' @ String_etas e (eta e (Some ac)))"
    by (rule String_Some)
qed

theorem String_truncates_name_witness:
  "0 < StatsFileNameLength example_env \<and>
   StatsFileNameLength example_env < int (length (runes ''abcdefghij'')) \<and>
   StatsFileNameLength example_env = 5 \<and>
   String_name example_env (runes ''abcdefghij'') = runes ''...fghij'' \<and>
   StatsFileNameLength (example_env\<lparr>StatsFileNameLength := 0\<rparr>) = 0 \<and>
   String_name (example_env\<lparr>StatsFileNameLength := 0\<rparr>) (runes ''abcdefghij'') = runes ''abcdefghij'' \<and>
   String_percentageDone example_env 250 (- 1) = 0 \<and>
   String_percentageDone example_env 250 0 = 0 \<and>
   String example_env 9 (Some example_account) =
     Inr (pad_left 45 (runes ''...fghij'') @ runes '':  0% /1000, 0/s, -'')"
proof -
  have h: "0 < StatsFileNameLength example_env \<and>
      StatsFileNameLength example_env < int (length (runes ''abcdefghij''))"
    "StatsFileNameLength example_env = 5"
    "StatsFileNameLength (example_env\<lparr>StatsFileNameLength := 0\<rparr>) = 0"
    by (simp_all add: example_defs runes_def)
  note T = String_truncates_name
  from T [of example_env "runes ''abcdefghij''"] h
  have 1: "String_name example_env (runes ''abcdefghij'') = runes ''...fghij''"
    by (simp add: runes_def)
  from T [of "example_env\<lparr>StatsFileNameLength := 0\<rparr>" "runes ''abcdefghij''"] h(3)
  have 2: "String_name (example_env\<lparr>StatsFileNameLength := 0\<rparr>) (runes ''abcdefghij'') =
      runes ''abcdefghij''"
    by blast
  from T [of example_env _ "- 1" 250]
  have 3: "String_percentageDone example_env 250 (- 1) = 0" by simp
  from T [of example_env _ 0 250]
  have 4: "String_percentageDone example_env 250 0 = 0" by simp
  have p: "String_percentageDone example_env 0 1000 = 100 * 0 div 1000"
    by (rule percentage_exact) simp_all
  have v: "name example_account = runes ''abcdefghij''" "bytes example_account = 0"
    "acc_size example_account = 1000"
    by (simp_all add: example_defs)
  have s: "speed 9 (Some example_account) = (Finite 0, Finite 0)"
    "eta example_env (Some example_account) = (0, False)"
    by (simp_all add: speed_def eta_def v)
  have c: "String_cur example_env (Finite 0) = Finite 0"
    by (simp add: String_cur_def example_defs runes_def)
  have z: "f64_to_int64 (float_to_int example_env) (Finite 0) = 0"
    by (simp add: trunc_rat_def is_int64_def min_int64_def max_int64_def)
  have f: "SizeSuffix_String example_env = itoa"
    by (simp add: example_defs)
  note S = T [of example_env "[]" 0 0 9 example_account, THEN conjunct2, THEN conjunct2,
      THEN conjunct2]
  have "String example_env 9 (Some example_account) =
     Inr (pad_left 45 (runes ''...fghij'') @ runes '': '' @ pad_left 2 (itoa 0) @ runes ''% /'' @
          itoa 1000 @ runes '', '' @ itoa 0 @ runes ''/s, '' @ String_etas example_env (0, False))"
    using p by (simp only: S v 1 s c z f snd_conv) simp
  then have 5: "String example_env 9 (Some example_account) =
     Inr (pad_left 45 (runes ''...fghij'') @ runes '':  0% /1000, 0/s, -'')"
    by (simp add: String_etas_def itoa_def pad_left_def runes_def)
  show ?thesis using h 1 2 3 4 5 by blast
qed

text \<open>
  Claim C10 as it is stated fails: with 1001 bytes read of 1000 the percentage is 100,
  which does not exceed 100.
\<close>

theorem percentage_not_above_100:
  "bytes (example_account\<lparr>bytes := 1001\<rparr>) = 1001 \<and>
   acc_size (example_account\<lparr>bytes := 1001\<rparr>) = 1000 \<and>
   String_percentageDone example_env 1001 1000 = 100 \<and>
   \<not> 100 < String_percentageDone example_env 1001 1000"
proof -
  have "String_percentageDone example_env 1001 1000 = 100 * 1001 div 1000"
    by (rule percentage_exact) simp_all
  then show ?thesis by (simp add: example_defs)
qed

text \<open>
  Claim C10, amended. For a size above 0 and a count of bytes that is not negative, both
  small enough for binary64 (100 times the bytes plus the size is below \<open>2 ^ 53\<close>), the
  percentage that \<^verbatim>\<open>String\<close> renders is the integer part of 100 times the bytes read
  over the size, with no upper bound: it is at least 100 whenever the bytes read reach
  the size, it exceeds 100 as soon as the bytes read reach 101 hundredths of the size, and
  it is 200 when the bytes read are twice the size.
\<close>

theorem percentage_unclamped:
  assumes "0 \<le> bytes ac" and "0 < acc_size ac" and "100 * bytes ac + acc_size ac < 2 ^ 53"
  shows "String_percentageDone e (bytes ac) (acc_size ac) = 100 * bytes ac div acc_size ac \<and>
     (acc_size ac \<le> bytes ac \<longrightarrow> 100 \<le> String_percentageDone e (bytes ac) (acc_size ac)) \<and>
     (101 * acc_size ac \<le> 100 * bytes ac \<longrightarrow> 100 < String_percentageDone e (bytes ac) (acc_size ac)) \<and>
     (bytes ac = 2 * acc_size ac \<longrightarrow> String_percentageDone e (bytes ac) (acc_size ac) = 200) \<and>
     String e now (Some ac) =
       Inr (pad_left 45 (String_name e (name ac)) @ runes '': '' @
            pad_left 2 (itoa (100 * bytes ac div acc_size ac)) @ runes ''% /'' @
            SizeSuffix_String e (acc_size ac) @ runes '', '' @
            SizeSuffix_String e (f64_to_int64 (float_to_int e) (String_cur e (snd (speed now (Some ac))))) @
            runes ''/s, '' @ String_etas e (eta e (Some ac)))"
proof -
  let ?a = "bytes ac" and ?b = "acc_size ac"
  have p: "String_percentageDone e ?a ?b = 100 * ?a div ?b"
    using assms by (rule percentage_exact)
  have ge: "100 \<le> 100 * ?a div ?b" if "?b \<le> ?a"
  proof -
    have "100 * ?b \<le> 100 * ?a" using that by simp
    then have "100 * ?b div ?b \<le> 100 * ?a div ?b" by (rule zdiv_mono1) (rule assms(2))
    then show ?thesis using assms(2) by simp
  qed
  have gt: "100 < 100 * ?a div ?b" if "101 * ?b \<le> 100 * ?a"
  proof -
    have "101 * ?b div ?b \<le> 100 * ?a div ?b" using that by (rule zdiv_mono1) (rule assms(2))
    then show ?thesis using assms(2) by simp
  qed
  have two: "100 * ?a div ?b = 200" if "?a = 2 * ?b"
    using that assms(2) by simp
  have s: "String e now (Some ac) =
       Inr (pad_left 45 (String_name e (name ac)) @ runes '': '' @
            pad_left 2 (itoa (100 * bytes ac div acc_size ac)) @ runes ''% /'' @
            SizeSuffix_String e (acc_size ac) @ runes '', '' @
            SizeSuffix_String e (f64_to_int64 (float_to_int e) (String_cur e (snd (speed now (Some ac))))) @
            runes ''/s, '' @ String_etas e (eta e (Some ac)))"
    by (simp only: String_Some p)
  show ?thesis
    unfolding p using ge gt two s by blast
qed

theorem percentage_unclamped_witness:
  "0 \<le> bytes (example_account\<lparr>bytes := 2000\<rparr>) \<and> 0 < acc_size (example_account\<lparr>bytes := 2000\<rparr>) \<and>
   100 * bytes (example_account\<lparr>bytes := 2000\<rparr>) + acc_size (example_account\<lparr>bytes := 2000\<rparr>) < 2 ^ 53 \<and>
   bytes (example_account\<lparr>bytes := 2000\<rparr>) = 2 * acc_size (example_account\<lparr>bytes := 2000\<rparr>) \<and>
   String_percentageDone example_env (bytes (example_account\<lparr>bytes := 2000\<rparr>))
     (acc_size (example_account\<lparr>bytes := 2000\<rparr>)) = 200"
proof -
  have h: "0 \<le> bytes (example_account\<lparr>bytes := 2000\<rparr>)"
    "0 < acc_size (example_account\<lparr>bytes := 2000\<rparr>)"
    "100 * bytes (example_account\<lparr>bytes := 2000\<rparr>) + acc_size (example_account\<lparr>bytes := 2000\<rparr>) < 2 ^ 53"
    "bytes (example_account\<lparr>bytes := 2000\<rparr>) = 2 * acc_size (example_account\<lparr>bytes := 2000\<rparr>)"
    by (simp_all add: example_defs)
  show ?thesis
    using h percentage_unclamped [OF h(1-3), of example_env] by blast
qed

end
